theory Spec2Isabelle
  imports Complex_Main
begin

section \<open>Data model of minesweeper.py\<close>

text \<open>
  Coordinates are pairs (row, column) of Python integers.  A \<open>Cell\<close> object is a record
  of its three attributes.  An entry of \<open>Grid.cells\<close> is either a \<open>Cell\<close> object or the
  string \<open>'X'\<close> that \<open>Minesweeper._has_guessed_mine\<close> stores in place of a guessed mine.
  Exceptions are values of type \<open>error\<close>; a function that can raise returns \<open>error + 'a\<close>.
  The attribute \<open>mine_count\<close> is optional because \<open>Grid.__init__\<close> assigns it only when
  the difficulty is 1, 2 or 3.
\<close>

type_synonym coordinate = "int \<times> int"

record cell =
  has_mine :: bool
  surrounding_mines_count :: int
  is_open :: bool

datatype slot = Cell cell | Marker_X

datatype error = IndexError | AttributeError | ValueError | EOFError

record grid =
  width :: int
  height :: int
  difficulty :: int
  cells :: "slot list list"
  mine_count :: "int option"
  hinted_cells :: "coordinate set"

text \<open>
  \<open>range(a, b)\<close>, and the subscription \<open>xs[i]\<close> of a list: a negative index counts from
  the end, and an index outside \<open>-len(xs) \<le> i < len(xs)\<close> raises \<open>IndexError\<close>.
\<close>

definition range_py :: "int \<Rightarrow> int \<Rightarrow> int list" where
  "range_py a b = [a..b - 1]"

definition subscript :: "'a list \<Rightarrow> int \<Rightarrow> error + 'a" where
  "subscript xs i =
     (if 0 \<le> i \<and> i < int (length xs) then Inr (xs ! nat i)
      else if i < 0 \<and> - int (length xs) \<le> i then Inr (xs ! nat (int (length xs) + i))
      else Inl IndexError)"

text \<open>
  \<open>self.cells[row][col]\<close> followed by the read of an attribute of the cell: the string
  \<open>'X'\<close> has none of the attributes of a \<open>Cell\<close>, so the read raises \<open>AttributeError\<close>.
\<close>

definition cell_at :: "grid \<Rightarrow> int \<Rightarrow> int \<Rightarrow> error + cell" where
  "cell_at g row col =
     (case subscript (cells g) row of
        Inl e \<Rightarrow> Inl e
      | Inr line \<Rightarrow>
          (case subscript line col of
             Inl e \<Rightarrow> Inl e
           | Inr Marker_X \<Rightarrow> Inl AttributeError
           | Inr (Cell c) \<Rightarrow> Inr c))"

section \<open>The hint search of the Grid class\<close>

text \<open>
  \<open>Grid.get_neighbours\<close>; the test that \<open>hint\<close> and \<open>_recursive_backtrack_search\<close> both
  make (not hinted, not opened, no mine; \<open>and\<close> does not evaluate its right operand when the
  left one is false); and the test of the search for the cell it returns, which adds that the
  count is 0.
\<close>

definition get_neighbours :: "grid \<Rightarrow> int \<Rightarrow> int \<Rightarrow> coordinate list" where
  "get_neighbours g row col =
     [(r, c). r \<leftarrow> range_py (max 0 (row - 1)) (min (height g) (row + 2)),
              c \<leftarrow> range_py (max 0 (col - 1)) (min (width g) (col + 2)),
              (r, c) \<noteq> (row, col)]"

definition unhinted_unopened_non_mine :: "grid \<Rightarrow> int \<Rightarrow> int \<Rightarrow> error + bool" where
  "unhinted_unopened_non_mine g row col =
     (if (row, col) \<in> hinted_cells g then Inr False
      else case cell_at g row col of
             Inl e \<Rightarrow> Inl e
           | Inr c \<Rightarrow> Inr (\<not> is_open c \<and> \<not> has_mine c))"

definition found_here :: "grid \<Rightarrow> int \<Rightarrow> int \<Rightarrow> error + bool" where
  "found_here g row col =
     (case unhinted_unopened_non_mine g row col of
        Inl e \<Rightarrow> Inl e
      | Inr False \<Rightarrow> Inr False
      | Inr True \<Rightarrow>
          (case cell_at g row col of
             Inl e \<Rightarrow> Inl e
           | Inr c \<Rightarrow> Inr (surrounding_mines_count c = 0)))"

text \<open>
  \<open>Grid._recursive_backtrack_search\<close>, with the loop over the neighbours as
  \<open>search_neighbours\<close>.  The set \<open>visited\<close> is one object shared by all activations, so it is
  passed in and returned.  The limit that the Python interpreter puts on the depth of the
  recursion is not part of the model; \<open>search_within\<close> below makes the depth explicit.
\<close>

function recursive_backtrack_search ::
    "grid \<Rightarrow> int \<Rightarrow> int \<Rightarrow> coordinate set \<Rightarrow> error + (coordinate option \<times> coordinate set)"
  and search_neighbours ::
    "grid \<Rightarrow> coordinate list \<Rightarrow> coordinate set \<Rightarrow> error + (coordinate option \<times> coordinate set)"
where
  "recursive_backtrack_search g row col visited =
     (case found_here g row col of
        Inl e \<Rightarrow> Inl e
      | Inr True \<Rightarrow> Inr (Some (row, col), insert (row, col) visited)
      | Inr False \<Rightarrow> search_neighbours g (get_neighbours g row col) (insert (row, col) visited))"
| "search_neighbours g [] visited = Inr (None, visited)"
| "search_neighbours g (n # ns) visited =
     (if n \<notin> visited then
        (case recursive_backtrack_search g (fst n) (snd n) visited of
           Inl e \<Rightarrow> Inl e
         | Inr (Some found, visited') \<Rightarrow> Inr (Some found, visited')
         | Inr (None, visited') \<Rightarrow> search_neighbours g ns visited')
      else search_neighbours g ns visited)"
  by pat_completeness auto

text \<open>
  The coordinates of the grid.  The search terminates because every activation is for a
  coordinate that is not yet visited and all neighbours lie in the grid: the number of
  coordinates of the grid that are not visited decreases.
\<close>

definition grid_coordinates :: "grid \<Rightarrow> coordinate set" where
  "grid_coordinates g = {0..<height g} \<times> {0..<width g}"

lemma set_range_py: "set (range_py a b) = {a..<b}"
  by (auto simp: range_py_def)

lemma get_neighbours_in_grid: "set (get_neighbours g row col) \<subseteq> grid_coordinates g"
  by (auto simp: get_neighbours_def grid_coordinates_def set_range_py)

lemma finite_grid_coordinates: "finite (grid_coordinates g)"
  by (simp add: grid_coordinates_def)

lemma visited_grows_partial:
  "recursive_backtrack_search_search_neighbours_dom (Inl (g, row, col, visited)) \<Longrightarrow>
     recursive_backtrack_search g row col visited = Inr (res, visited') \<Longrightarrow>
     insert (row, col) visited \<subseteq> visited'"
  "recursive_backtrack_search_search_neighbours_dom (Inr (g, ns, visited)) \<Longrightarrow>
     search_neighbours g ns visited = Inr (res, visited') \<Longrightarrow> visited \<subseteq> visited'"
proof (induction g row col visited and g ns visited arbitrary: res visited' and res visited'
    rule: recursive_backtrack_search_search_neighbours.pinduct)
  case (1 g row col visited)
  then show ?case
    by (auto simp: recursive_backtrack_search.psimps split: sum.splits bool.splits)
next
  case (2 g visited)
  then show ?case by (simp add: search_neighbours.psimps)
next
  case (3 g n ns visited)
  show ?case
  proof (cases "n \<in> visited")
    case True
    with 3 show ?thesis by (simp add: search_neighbours.psimps)
  next
    case False
    with 3(1,5) obtain r1 v1 where
      call: "recursive_backtrack_search g (fst n) (snd n) visited = Inr (r1, v1)"
      by (auto simp: search_neighbours.psimps split: sum.splits)
    from 3(2)[OF False call] have sub1: "visited \<subseteq> v1" by auto
    show ?thesis
    proof (cases r1)
      case None
      with 3(1,5) False call have "search_neighbours g ns v1 = Inr (res, visited')"
        by (simp add: search_neighbours.psimps)
      from 3(3)[OF False call refl None this] sub1 show ?thesis by auto
    next
      case (Some a)
      with 3(1,5) False call sub1 show ?thesis by (auto simp: search_neighbours.psimps)
    qed
  qed
qed

termination recursive_backtrack_search
proof (relation "inv_image (less_than <*lex*> less_than)
    (\<lambda>x. case x of
        Inl (g, row, col, visited) \<Rightarrow>
          (card (grid_coordinates g - insert (row, col) visited),
           Suc (length (get_neighbours g row col)))
      | Inr (g, ns, visited) \<Rightarrow>
          (card ((grid_coordinates g \<union> set ns) - visited), length ns))", goal_cases)
  case 1
  show ?case by (intro wf_inv_image wf_lex_prod wf_less_than)
next
  case (2 g row col visited b)
  have "(grid_coordinates g \<union> set (get_neighbours g row col)) = grid_coordinates g"
    using get_neighbours_in_grid[of g row col] by auto
  then show ?case by simp
next
  case (3 g n ns visited)
  have "grid_coordinates g - insert (fst n, snd n) visited
          \<subset> (grid_coordinates g \<union> set (n # ns)) - visited"
    using 3 by auto
  then have "card (grid_coordinates g - insert (fst n, snd n) visited)
          < card ((grid_coordinates g \<union> set (n # ns)) - visited)"
    by (intro psubset_card_mono) (auto simp: finite_grid_coordinates)
  then show ?case by simp
next
  case (4 g n ns visited b x y)
  then have "visited \<subseteq> y"
    using visited_grows_partial(1)[of g "fst n" "snd n" visited x y] by auto
  then have "(grid_coordinates g \<union> set ns) - y \<subseteq> (grid_coordinates g \<union> set (n # ns)) - visited"
    by auto
  then have "card ((grid_coordinates g \<union> set ns) - y)
          \<le> card ((grid_coordinates g \<union> set (n # ns)) - visited)"
    by (intro card_mono) (auto simp: finite_grid_coordinates)
  then show ?case by auto
next
  case (5 g n ns visited)
  have "(grid_coordinates g \<union> set ns) - visited \<subseteq> (grid_coordinates g \<union> set (n # ns)) - visited"
    by auto
  then have "card ((grid_coordinates g \<union> set ns) - visited)
          \<le> card ((grid_coordinates g \<union> set (n # ns)) - visited)"
    by (intro card_mono) (auto simp: finite_grid_coordinates)
  then show ?case by auto
qed

subsection \<open>Grid.hint\<close>

text \<open>
  The two nested \<open>for\<close> loops of \<open>hint\<close> run over the coordinates in row-major order;
  \<open>hint_scan\<close> is the loop, on the coordinates still to be tried.  A non-empty tuple is
  truthy in Python, so \<open>if result:\<close> is the test that the search did not return \<open>None\<close>.
\<close>

fun hint_scan :: "grid \<Rightarrow> coordinate list \<Rightarrow> error + (coordinate option \<times> grid)" where
  "hint_scan g [] = Inr (None, g)"
| "hint_scan g ((row, col) # rest) =
     (case unhinted_unopened_non_mine g row col of
        Inl e \<Rightarrow> Inl e
      | Inr False \<Rightarrow> hint_scan g rest
      | Inr True \<Rightarrow>
          (case recursive_backtrack_search g row col {} of
             Inl e \<Rightarrow> Inl e
           | Inr (Some result, _) \<Rightarrow>
               Inr (Some result, g\<lparr>hinted_cells := insert result (hinted_cells g)\<rparr>)
           | Inr (None, _) \<Rightarrow> hint_scan g rest))"

definition scan_order :: "grid \<Rightarrow> coordinate list" where
  "scan_order g = [(row, col). row \<leftarrow> range_py 0 (height g), col \<leftarrow> range_py 0 (width g)]"

definition hint :: "grid \<Rightarrow> error + (coordinate option \<times> grid)" where
  "hint g = hint_scan g (scan_order g)"

text \<open>
  The same search run with a bound on the number of nested activations of
  \<open>_recursive_backtrack_search\<close>: \<open>None\<close> means that the bound was exceeded.  The loop over
  the neighbours runs inside the activation that started it, so it passes its own budget on.
\<close>

fun search_within ::
    "nat \<Rightarrow> grid \<Rightarrow> int \<Rightarrow> int \<Rightarrow> coordinate set
       \<Rightarrow> (error + (coordinate option \<times> coordinate set)) option"
  and neighbours_within ::
    "nat \<Rightarrow> grid \<Rightarrow> coordinate list \<Rightarrow> coordinate set
       \<Rightarrow> (error + (coordinate option \<times> coordinate set)) option"
where
  "search_within 0 g row col visited = None"
| "search_within (Suc d) g row col visited =
     (case found_here g row col of
        Inl e \<Rightarrow> Some (Inl e)
      | Inr True \<Rightarrow> Some (Inr (Some (row, col), insert (row, col) visited))
      | Inr False \<Rightarrow> neighbours_within d g (get_neighbours g row col) (insert (row, col) visited))"
| "neighbours_within d g [] visited = Some (Inr (None, visited))"
| "neighbours_within d g (n # ns) visited =
     (if n \<notin> visited then
        (case search_within d g (fst n) (snd n) visited of
           None \<Rightarrow> None
         | Some (Inl e) \<Rightarrow> Some (Inl e)
         | Some (Inr (Some found, visited')) \<Rightarrow> Some (Inr (Some found, visited'))
         | Some (Inr (None, visited')) \<Rightarrow> neighbours_within d g ns visited')
      else neighbours_within d g ns visited)"

text \<open>\<open>hint\<close> with the same bound on the depth of each of its searches.\<close>

fun hint_scan_within ::
    "nat \<Rightarrow> grid \<Rightarrow> coordinate list \<Rightarrow> (error + (coordinate option \<times> grid)) option" where
  "hint_scan_within d g [] = Some (Inr (None, g))"
| "hint_scan_within d g ((row, col) # rest) =
     (case unhinted_unopened_non_mine g row col of
        Inl e \<Rightarrow> Some (Inl e)
      | Inr False \<Rightarrow> hint_scan_within d g rest
      | Inr True \<Rightarrow>
          (case search_within d g row col {} of
             None \<Rightarrow> None
           | Some (Inl e) \<Rightarrow> Some (Inl e)
           | Some (Inr (Some result, _)) \<Rightarrow>
               Some (Inr (Some result, g\<lparr>hinted_cells := insert result (hinted_cells g)\<rparr>))
           | Some (Inr (None, _)) \<Rightarrow> hint_scan_within d g rest))"

definition hint_within :: "nat \<Rightarrow> grid \<Rightarrow> (error + (coordinate option \<times> grid)) option" where
  "hint_within d g = hint_scan_within d g (scan_order g)"

subsection \<open>Boards of the declared type\<close>

text \<open>
  The source declares \<open>cells\<close> as \<open>List[List[Cell]]\<close> and builds it as \<open>height\<close> rows of
  \<open>width\<close> cells.  A board is rectangular when \<open>cells\<close> has that shape, and unmarked when
  every entry is a \<open>Cell\<close>, that is, none is the string \<open>'X'\<close>.  \<open>Grid.__init__\<close> returns such
  a board, opening a cell and recording a hint keep it so, and only the guess of a mine, which
  ends the game, stores \<open>'X'\<close>.
\<close>

definition rectangular :: "grid \<Rightarrow> bool" where
  "rectangular g \<longleftrightarrow>
     int (length (cells g)) = max 0 (height g) \<and>
     list_all (\<lambda>line. int (length line) = max 0 (width g)) (cells g)"

definition unmarked :: "grid \<Rightarrow> bool" where
  "unmarked g \<longleftrightarrow> list_all (list_all (\<lambda>s. s \<noteq> Marker_X)) (cells g)"

text \<open>
  A cell that a hint may name: not hinted before, not opened, without a mine and with
  \<open>surrounding_mines_count = 0\<close>.
\<close>

definition fully_safe :: "grid \<Rightarrow> coordinate \<Rightarrow> bool" where
  "fully_safe g p \<longleftrightarrow>
     p \<notin> hinted_cells g \<and>
     (case cell_at g (fst p) (snd p) of
        Inl e \<Rightarrow> False
      | Inr c \<Rightarrow> \<not> is_open c \<and> \<not> has_mine c \<and> surrounding_mines_count c = 0)"


section \<open>Grid construction\<close>

text \<open>
  \<open>int(total_cells * 0.10)\<close> truncates a product of doubles.  It is modelled by the
  truncation towards zero of the exact product \<open>n * percent / 100\<close>.  The two agree for
  the cell totals a board can have: the relative error of the double nearest to 0.10, 0.15 or
  0.20 is below half a unit in the last place, so for totals below \<open>2 ^ 50\<close> an exact
  multiple is computed exactly and any other product stays on its side of the next integer.
\<close>

definition truncated_share :: "int \<Rightarrow> int \<Rightarrow> int" where
  "truncated_share n percent =
     (if 0 \<le> n then (n * percent) div 100 else - ((- n * percent) div 100))"

text \<open>
  \<open>random.sample\<close> belongs to the Python standard library.  Its random draws are the extra
  argument \<open>rs\<close>: each draw selects one of the elements still in the pool, which is then
  removed (selection without replacement); a missing draw counts as 0.  Every sequence of
  distinct elements of the population is the result of some draws
  (\<open>draw_reaches_every_sample\<close> below).  As the library does, it raises \<open>ValueError\<close> when
  the sample size is negative or exceeds the population.
\<close>

fun draw :: "nat list \<Rightarrow> 'a list \<Rightarrow> nat \<Rightarrow> 'a list" where
  "draw rs pool 0 = []"
| "draw rs pool (Suc k) =
     (if pool = [] then []
      else let j = (case rs of [] \<Rightarrow> 0 | r # _ \<Rightarrow> r mod length pool)
           in pool ! j # draw (tl rs) (take j pool @ drop (Suc j) pool) k)"

definition random_sample :: "nat list \<Rightarrow> 'a list \<Rightarrow> int \<Rightarrow> error + 'a list" where
  "random_sample rs population k =
     (if 0 \<le> k \<and> k \<le> int (length population) then Inr (draw rs population (nat k))
      else Inl ValueError)"

definition empty_cell :: cell where
  "empty_cell = \<lparr>has_mine = False, surrounding_mines_count = 0, is_open = False\<rparr>"

definition create_empty_cells :: "grid \<Rightarrow> slot list list" where
  "create_empty_cells self =
     map (\<lambda>_. map (\<lambda>_. Cell empty_cell) (range_py 0 (width self))) (range_py 0 (height self))"

definition generate_grid_coordinate_positions :: "grid \<Rightarrow> coordinate list" where
  "generate_grid_coordinate_positions self =
     [(row, col). row \<leftarrow> range_py 0 (height self), col \<leftarrow> range_py 0 (width self)]"

definition generate_mine_positions ::
    "nat list \<Rightarrow> grid \<Rightarrow> coordinate list \<Rightarrow> error + coordinate list" where
  "generate_mine_positions rs self coordinate_positions =
     (case mine_count self of
        None \<Rightarrow> Inl AttributeError
      | Some k \<Rightarrow> random_sample rs coordinate_positions k)"

text \<open>
  \<open>set(coordinate_positions) - set(mine_positions)\<close>.  The coordinates are pairwise distinct,
  so the set is the list of those that are no mine position.  Python iterates over a set in
  an order of its own; the loop that iterates over this one writes one cell per element and
  reads only \<open>has_mine\<close>, which it does not write, so the order has no effect
  (\<open>set_surrounding_mine_count_any_order\<close> below).
\<close>

definition identify_non_mine_positions ::
    "coordinate list \<Rightarrow> coordinate list \<Rightarrow> coordinate list" where
  "identify_non_mine_positions coordinate_positions mine_positions =
     filter (\<lambda>p. p \<notin> set mine_positions) coordinate_positions"

text \<open>
  An assignment to an attribute of \<open>self.cells[row][col]\<close>: both subscripts follow Python
  (a negative index counts from the end, an index out of range raises), and the entry must be
  a \<open>Cell\<close> object.  Rows and cells are objects of their own, so one entry changes.
\<close>

definition position :: "'a list \<Rightarrow> int \<Rightarrow> nat" where
  "position xs i = nat (if i < 0 then int (length xs) + i else i)"

definition update_cell :: "(cell \<Rightarrow> cell) \<Rightarrow> grid \<Rightarrow> int \<Rightarrow> int \<Rightarrow> error + grid" where
  "update_cell f self row col =
     (case subscript (cells self) row of
        Inl e \<Rightarrow> Inl e
      | Inr line \<Rightarrow>
          (case subscript line col of
             Inl e \<Rightarrow> Inl e
           | Inr Marker_X \<Rightarrow> Inl AttributeError
           | Inr (Cell c) \<Rightarrow>
               Inr (self\<lparr>cells := (cells self)[position (cells self) row :=
                                       line[position line col := Cell (f c)]]\<rparr>)))"

fun place_mines :: "grid \<Rightarrow> coordinate list \<Rightarrow> error + grid" where
  "place_mines self [] = Inr self"
| "place_mines self ((row_index, column_index) # mine_positions) =
     (case update_cell (\<lambda>c. c\<lparr>has_mine := True\<rparr>) self row_index column_index of
        Inl e \<Rightarrow> Inl e
      | Inr self' \<Rightarrow> place_mines self' mine_positions)"

definition is_valid_position :: "grid \<Rightarrow> int \<Rightarrow> int \<Rightarrow> bool" where
  "is_valid_position self row_index column_index \<longleftrightarrow>
     0 \<le> row_index \<and> row_index < height self \<and> 0 \<le> column_index \<and> column_index < width self"

text \<open>The two inner loops of \<open>_set_surrounding_mine_count\<close>, on the block still to count.\<close>

fun count_block :: "grid \<Rightarrow> coordinate list \<Rightarrow> int \<Rightarrow> error + int" where
  "count_block self [] count = Inr count"
| "count_block self ((row_index, column_index) # block) count =
     (if is_valid_position self row_index column_index then
        (case cell_at self row_index column_index of
           Inl e \<Rightarrow> Inl e
         | Inr c \<Rightarrow> count_block self block (if has_mine c then count + 1 else count))
      else count_block self block count)"

definition block_around :: "int \<Rightarrow> int \<Rightarrow> coordinate list" where
  "block_around empty_row_index empty_column_index =
     [(row_index, column_index).
        row_index \<leftarrow> range_py (empty_row_index - 1) (empty_row_index + 2),
        column_index \<leftarrow> range_py (empty_column_index - 1) (empty_column_index + 2)]"

fun set_surrounding_mine_count :: "grid \<Rightarrow> coordinate list \<Rightarrow> error + grid" where
  "set_surrounding_mine_count self [] = Inr self"
| "set_surrounding_mine_count self ((empty_row_index, empty_column_index) # non_mine_positions) =
     (case count_block self (block_around empty_row_index empty_column_index) 0 of
        Inl e \<Rightarrow> Inl e
      | Inr count \<Rightarrow>
          (case update_cell (\<lambda>c. c\<lparr>surrounding_mines_count := count\<rparr>) self
                  empty_row_index empty_column_index of
             Inl e \<Rightarrow> Inl e
           | Inr self' \<Rightarrow> set_surrounding_mine_count self' non_mine_positions))"

definition set_cell_mines_and_surrounding_counts :: "nat list \<Rightarrow> grid \<Rightarrow> error + grid" where
  "set_cell_mines_and_surrounding_counts rs self =
     (let coordinate_positions = generate_grid_coordinate_positions self in
      case generate_mine_positions rs self coordinate_positions of
        Inl e \<Rightarrow> Inl e
      | Inr mine_positions \<Rightarrow>
          (case place_mines self mine_positions of
             Inl e \<Rightarrow> Inl e
           | Inr self' \<Rightarrow>
               set_surrounding_mine_count self'
                 (identify_non_mine_positions coordinate_positions mine_positions)))"

text \<open>
  \<open>Grid.__init__\<close>.  The attributes are assigned in the order of the source; \<open>mine_count\<close>
  stays unset when the difficulty is none of 1, 2, 3, and \<open>hinted_cells\<close> is assigned last.
\<close>

definition Grid_init :: "nat list \<Rightarrow> int \<Rightarrow> int \<Rightarrow> int \<Rightarrow> error + grid" where
  "Grid_init rs w h d =
     (let self = \<lparr>width = w, height = h, difficulty = d, cells = [],
                  mine_count = None, hinted_cells = {}\<rparr>;
          self = self\<lparr>cells := create_empty_cells self\<rparr>;
          total_cells = width self * height self;
          self = (if d = 1 then self\<lparr>mine_count := Some (max 1 (truncated_share total_cells 10))\<rparr>
                  else if d = 2 then self\<lparr>mine_count := Some (max 2 (truncated_share total_cells 15))\<rparr>
                  else if d = 3 then self\<lparr>mine_count := Some (max 3 (truncated_share total_cells 20))\<rparr>
                  else self)
      in case set_cell_mines_and_surrounding_counts rs self of
           Inl e \<Rightarrow> Inl e
         | Inr self' \<Rightarrow> Inr (self'\<lparr>hinted_cells := {}\<rparr>))"

section \<open>The Minesweeper class and the driver\<close>

text \<open>
  Standard input is the list of lines still to be read.  A line is classified by what the two
  readers of the program make of it: \<open>int(...)\<close> accepts it (\<open>Line_int\<close>), or its stripped
  lower-case form is \<open>play\<close> or \<open>hint\<close>, or neither.  \<open>input\<close> raises \<open>EOFError\<close> when no
  line is left.  Of the output, the messages are recorded in the order they are printed; the
  prompts and the rendering of the grid, which cannot fail, are left out.  The only attribute
  of a \<open>Minesweeper\<close> object is its grid, so its methods are functions on the grid.
\<close>

datatype line = Line_int int | Line_play | Line_hint | Line_other

text \<open>
  The messages, in the order of the constructors: "Invalid input. Please enter a valid
  number."; "Invalid input. Please enter a number between 0 and max_index."; "Invalid input.
  The cell is already opened. Please choose another cell."; "You guessed a mine."; "Game
  Over:("; "Hint: Try opening the cell at (row, col)"; "No safe cells available for a hint!";
  "Invalid option. Please choose 'play' or 'hint'."; "Congratulations, you won!"; and, in
  play.py, "The grid must be at least 2x2. Please enter valid dimensions.".
\<close>

datatype message =
    Invalid_number
  | Out_of_range int
  | Already_opened
  | Guessed_mine
  | Game_over
  | Hint_at coordinate
  | No_safe_cells
  | Invalid_option
  | Congratulations
  | Grid_too_small

text \<open>
  How a run of \<open>play\<close> ends: by the \<open>else\<close> branch of its loop, by the \<open>break\<close> after a
  guessed mine, or by an exception, which is \<open>EOFError\<close> when the input ends while the game
  is in progress.
\<close>

datatype status = Won | Lost | Raised error

definition is_cell_open :: "grid \<Rightarrow> int \<Rightarrow> int \<Rightarrow> error + bool" where
  "is_cell_open self row_index column_index =
     (case cell_at self row_index column_index of Inl e \<Rightarrow> Inl e | Inr c \<Rightarrow> Inr (is_open c))"

definition grid_has_mine :: "grid \<Rightarrow> coordinate \<Rightarrow> error + bool" where
  "grid_has_mine self coordinate =
     (case cell_at self (fst coordinate) (snd coordinate) of
        Inl e \<Rightarrow> Inl e
      | Inr c \<Rightarrow> Inr (has_mine c))"

text \<open>\<open>Cell.unopened_non_mine\<close>, and the scan of \<open>has_unopened_non_mines\<close> over the cells in
  row-major order; the method call on the string \<open>'X'\<close> raises.\<close>

definition unopened_non_mine :: "cell \<Rightarrow> bool" where
  "unopened_non_mine c \<longleftrightarrow> is_open c = False \<and> has_mine c = False"

fun any_unopened_non_mine :: "slot list \<Rightarrow> error + bool" where
  "any_unopened_non_mine [] = Inr False"
| "any_unopened_non_mine (Marker_X # rest) = Inl AttributeError"
| "any_unopened_non_mine (Cell c # rest) =
     (if unopened_non_mine c then Inr True else any_unopened_non_mine rest)"

definition has_unopened_non_mines :: "grid \<Rightarrow> error + bool" where
  "has_unopened_non_mines self = any_unopened_non_mine (concat (cells self))"

text \<open>
  \<open>_get_valid_coordinate\<close> (its argument \<open>plane\<close> only words the prompt) and
  \<open>_get_user_guess\<close>: each loop takes the lines it reads from the input and appends the
  messages it prints.  Both end only when a value is accepted or the input is exhausted.
\<close>

fun get_valid_coordinate ::
    "int \<Rightarrow> line list \<Rightarrow> message list \<Rightarrow> (error + int) \<times> line list \<times> message list" where
  "get_valid_coordinate max_index [] out = (Inl EOFError, [], out)"
| "get_valid_coordinate max_index (Line_int coordinate # ins) out =
     (if 0 \<le> coordinate \<and> coordinate \<le> max_index then (Inr coordinate, ins, out)
      else get_valid_coordinate max_index ins (out @ [Out_of_range max_index]))"
| "get_valid_coordinate max_index (_ # ins) out =
     get_valid_coordinate max_index ins (out @ [Invalid_number])"

lemma get_valid_coordinate_consumes:
  "get_valid_coordinate max_index ins out = (Inr c, ins', out') \<Longrightarrow> length ins' < length ins"
  by (induction max_index ins out rule: get_valid_coordinate.induct)
     (auto split: if_splits dest: less_SucI)

function get_user_guess ::
    "grid \<Rightarrow> line list \<Rightarrow> message list \<Rightarrow> (error + coordinate) \<times> line list \<times> message list" where
  "get_user_guess self ins out =
     (case get_valid_coordinate (width self - 1) ins out of
        (Inl e, ins1, out1) \<Rightarrow> (Inl e, ins1, out1)
      | (Inr column_index, ins1, out1) \<Rightarrow>
          (case get_valid_coordinate (height self - 1) ins1 out1 of
             (Inl e, ins2, out2) \<Rightarrow> (Inl e, ins2, out2)
           | (Inr row_index, ins2, out2) \<Rightarrow>
               (case is_cell_open self row_index column_index of
                  Inl e \<Rightarrow> (Inl e, ins2, out2)
                | Inr True \<Rightarrow> get_user_guess self ins2 (out2 @ [Already_opened])
                | Inr False \<Rightarrow> (Inr (row_index, column_index), ins2, out2))))"
  by pat_completeness auto
termination
proof (relation "measure (\<lambda>(self, ins, out). length ins)", goal_cases)
  case 1
  show ?case by simp
next
  case 2
  then show ?case
    by (auto dest!: get_valid_coordinate_consumes[OF sym] get_valid_coordinate_consumes)
qed


declare get_user_guess.simps [simp del]

lemma get_valid_coordinate_unread:
  "get_valid_coordinate max_index ins out = (r, ins', out') \<Longrightarrow> length ins' \<le> length ins"
  by (induction max_index ins out rule: get_valid_coordinate.induct)
     (auto split: if_splits dest: le_SucI)

lemma get_user_guess_unread:
  "get_user_guess self ins out = (r, ins', out') \<Longrightarrow> length ins' \<le> length ins"
proof (induction self ins out rule: get_user_guess.induct)
  case (1 self ins out)
  obtain r1 ins1 out1 where a: "get_valid_coordinate (width self - 1) ins out = (r1, ins1, out1)"
    by (cases "get_valid_coordinate (width self - 1) ins out") auto
  from get_valid_coordinate_unread[OF a] have l1: "length ins1 \<le> length ins" .
  show ?case
  proof (cases r1)
    case (Inl e)
    with a 1(2) l1 show ?thesis by (simp add: get_user_guess.simps[of self ins out])
  next
    case (Inr column_index)
    obtain r2 ins2 out2 where
      b: "get_valid_coordinate (height self - 1) ins1 out1 = (r2, ins2, out2)"
      by (cases "get_valid_coordinate (height self - 1) ins1 out1") auto
    from get_valid_coordinate_unread[OF b] l1 have l2: "length ins2 \<le> length ins" by simp
    show ?thesis
    proof (cases r2)
      case (Inl e)
      with a b Inr 1(2) l2 show ?thesis by (simp add: get_user_guess.simps[of self ins out])
    next
      case r2: (Inr row_index)
      show ?thesis
      proof (cases "is_cell_open self row_index column_index")
        case (Inl e)
        with a b Inr r2 1(2) l2 show ?thesis by (simp add: get_user_guess.simps[of self ins out])
      next
        case op: (Inr opened)
        show ?thesis
        proof (cases opened)
          case True
          with a b Inr r2 op 1(2)
          have again: "get_user_guess self ins2 (out2 @ [Already_opened]) = (r, ins', out')"
            by (simp add: get_user_guess.simps[of self ins out])
          from True op have opT: "is_cell_open self row_index column_index = Inr True" by simp
          from 1(1)[OF a[symmetric] Inr refl b[symmetric] r2 refl opT refl again] l2
          show ?thesis by simp
        next
          case False
          with a b Inr r2 op 1(2) l2 show ?thesis by (simp add: get_user_guess.simps[of self ins out])
        qed
      qed
    qed
  qed
qed

text \<open>\<open>self.grid.cells[row][column] = 'X'\<close>: a subscription, then an item assignment.\<close>

definition store_marker :: "grid \<Rightarrow> int \<Rightarrow> int \<Rightarrow> error + grid" where
  "store_marker self row col =
     (case subscript (cells self) row of
        Inl e \<Rightarrow> Inl e
      | Inr line \<Rightarrow>
          (case subscript line col of
             Inl e \<Rightarrow> Inl e
           | Inr _ \<Rightarrow>
               Inr (self\<lparr>cells := (cells self)[position (cells self) row :=
                                       line[position line col := Marker_X]]\<rparr>)))"

definition has_guessed_mine ::
    "grid \<Rightarrow> coordinate \<Rightarrow> message list \<Rightarrow> (error + bool) \<times> grid \<times> message list" where
  "has_guessed_mine self user_coordinate_guess out =
     (case grid_has_mine self user_coordinate_guess of
        Inl e \<Rightarrow> (Inl e, self, out)
      | Inr True \<Rightarrow>
          (case store_marker self (fst user_coordinate_guess) (snd user_coordinate_guess) of
             Inl e \<Rightarrow> (Inl e, self, out)
           | Inr self' \<Rightarrow> (Inr True, self', out @ [Guessed_mine]))
      | Inr False \<Rightarrow> (Inr False, self, out))"

definition request_hint :: "grid \<Rightarrow> message list \<Rightarrow> (error + unit) \<times> grid \<times> message list" where
  "request_hint self out =
     (case hint self of
        Inl e \<Rightarrow> (Inl e, self, out)
      | Inr (Some p, self') \<Rightarrow> (Inr (), self', out @ [Hint_at p])
      | Inr (None, self') \<Rightarrow> (Inr (), self', out @ [No_safe_cells]))"

text \<open>\<open>Cell.open\<close> on the cell at a coordinate.\<close>

definition open_cell :: "grid \<Rightarrow> coordinate \<Rightarrow> error + grid" where
  "open_cell self coordinate =
     update_cell (\<lambda>c. c\<lparr>is_open := True\<rparr>) self (fst coordinate) (snd coordinate)"

text \<open>
  \<open>Minesweeper.play\<close>.  The result is how the loop ended (the \<open>else\<close> branch of the
  \<open>while\<close>, the \<open>break\<close>, or an exception), the grid, the input left unread and the
  messages printed.
\<close>

function play :: "grid \<Rightarrow> line list \<Rightarrow> message list \<Rightarrow> status \<times> grid \<times> line list \<times> message list" where
  "play self ins out =
     (case has_unopened_non_mines self of
        Inl e \<Rightarrow> (Raised e, self, ins, out)
      | Inr False \<Rightarrow> (Won, self, ins, out @ [Congratulations])
      | Inr True \<Rightarrow>
          (case ins of
             [] \<Rightarrow> (Raised EOFError, self, [], out)
           | Line_play # ins1 \<Rightarrow>
               (case get_user_guess self ins1 out of
                  (Inl e, ins2, out2) \<Rightarrow> (Raised e, self, ins2, out2)
                | (Inr user_coordinate_guess, ins2, out2) \<Rightarrow>
                    (case has_guessed_mine self user_coordinate_guess out2 of
                       (Inl e, self', out3) \<Rightarrow> (Raised e, self', ins2, out3)
                     | (Inr True, self', out3) \<Rightarrow> (Lost, self', ins2, out3 @ [Game_over])
                     | (Inr False, self', out3) \<Rightarrow>
                         (case open_cell self' user_coordinate_guess of
                            Inl e \<Rightarrow> (Raised e, self', ins2, out3)
                          | Inr self'' \<Rightarrow> play self'' ins2 out3)))
           | Line_hint # ins1 \<Rightarrow>
               (case request_hint self out of
                  (Inl e, self', out1) \<Rightarrow> (Raised e, self', ins1, out1)
                | (Inr _, self', out1) \<Rightarrow> play self' ins1 out1)
           | _ # ins1 \<Rightarrow> play self ins1 (out @ [Invalid_option])))"
  by pat_completeness auto
termination
  by (relation "measure (\<lambda>(self, ins, out). length ins)")
     (auto dest!: get_user_guess_unread[OF sym])

declare play.simps [simp del]

text \<open>
  play.py: the loop that asks for the dimensions until both exceed 1, then the difficulty,
  the construction and the game.  \<open>int(input(...))\<close> is not guarded here, so a line that is
  no integer raises \<open>ValueError\<close>.
\<close>

fun read_dimensions ::
    "line list \<Rightarrow> message list \<Rightarrow> (error + int \<times> int) \<times> line list \<times> message list" where
  "read_dimensions [] out = (Inl EOFError, [], out)"
| "read_dimensions [Line_int w] out = (Inl EOFError, [], out)"
| "read_dimensions (Line_int w # Line_int h # ins) out =
     (if w > 1 \<and> h > 1 then (Inr (w, h), ins, out)
      else read_dimensions ins (out @ [Grid_too_small]))"
| "read_dimensions (Line_int w # _ # ins) out = (Inl ValueError, ins, out)"
| "read_dimensions (_ # ins) out = (Inl ValueError, ins, out)"

definition main ::
    "nat list \<Rightarrow> line list \<Rightarrow> status \<times> grid option \<times> line list \<times> message list" where
  "main rs ins =
     (case read_dimensions ins [] of
        (Inl e, ins1, out1) \<Rightarrow> (Raised e, None, ins1, out1)
      | (Inr (w, h), ins1, out1) \<Rightarrow>
          (case ins1 of
             [] \<Rightarrow> (Raised EOFError, None, [], out1)
           | Line_int diff # ins2 \<Rightarrow>
               (case Grid_init rs w h diff of
                  Inl e \<Rightarrow> (Raised e, None, ins2, out1)
                | Inr game \<Rightarrow>
                    (case play game ins2 out1 of
                       (st, game', ins3, out3) \<Rightarrow> (st, Some game', ins3, out3)))
           | _ # ins2 \<Rightarrow> (Raised ValueError, None, ins2, out1)))"

section \<open>Notions used in the statements\<close>

text \<open>
  The board with one entry of \<open>cells\<close> replaced: for a row and a column inside the grid, the
  entry of row \<open>row\<close> and column \<open>col\<close> becomes \<open>s\<close>, all else stays.
\<close>

definition with_entry :: "grid \<Rightarrow> int \<Rightarrow> int \<Rightarrow> slot \<Rightarrow> grid" where
  "with_entry g row col s =
     g\<lparr>cells := (cells g)[nat row := (cells g ! nat row)[nat col := s]]\<rparr>"

text \<open>
  The cell at a coordinate has a mine.
\<close>

definition mined :: "grid \<Rightarrow> coordinate \<Rightarrow> bool" where
  "mined g p \<longleftrightarrow> (case cell_at g (fst p) (snd p) of Inl e \<Rightarrow> False | Inr c \<Rightarrow> has_mine c)"

text \<open>
  Two coordinates are adjacent when they differ and lie at most one row and at most one
  column apart: the up to eight orthogonal and diagonal neighbours, without wrap-around.
\<close>

definition adjacent :: "coordinate \<Rightarrow> coordinate \<Rightarrow> bool" where
  "adjacent p q \<longleftrightarrow> p \<noteq> q \<and> \<bar>fst p - fst q\<bar> \<le> 1 \<and> \<bar>snd p - snd q\<bar> \<le> 1"

text \<open>
  The documented mine count: \<open>max (floor (width * height * rate)) minimum\<close>, with the
  rate and the minimum of the tier.  This definition follows the words of the specification; the
  program's own computation is in \<open>Grid_init\<close>.
\<close>

definition tier_rate :: "int \<Rightarrow> real" where
  "tier_rate d = (if d = 1 then 0.10 else if d = 2 then 0.15 else 0.20)"

definition tier_minimum :: "int \<Rightarrow> int" where
  "tier_minimum d = (if d = 1 then 1 else if d = 2 then 2 else 3)"

definition documented_mine_count :: "int \<Rightarrow> int \<Rightarrow> int \<Rightarrow> int" where
  "documented_mine_count w h d = max \<lfloor>real_of_int (w * h) * tier_rate d\<rfloor> (tier_minimum d)"

text \<open>
  The coordinates of the hints among the printed messages, in the order they were printed.
\<close>

fun hints_in :: "message list \<Rightarrow> coordinate list" where
  "hints_in [] = []"
| "hints_in (Hint_at p # ms) = p # hints_in ms"
| "hints_in (_ # ms) = hints_in ms"

subsection \<open>Example boards\<close>

text \<open>
  Entries of the example boards: an unopened cell with or without a mine, and an opened cell.
\<close>

definition closed_cell :: "bool \<Rightarrow> int \<Rightarrow> slot" where
  "closed_cell m n = Cell \<lparr>has_mine = m, surrounding_mines_count = n, is_open = False\<rparr>"

definition opened_cell :: "int \<Rightarrow> slot" where
  "opened_cell n = Cell \<lparr>has_mine = False, surrounding_mines_count = n, is_open = True\<rparr>"

text \<open>
  A 2 by 2 board with a mine at (0, 0): every other cell is unopened and has the count 1.
\<close>

definition corner_board :: grid where
  "corner_board =
     \<lparr>width = 2, height = 2, difficulty = 1,
      cells = [[closed_cell True 0, closed_cell False 1],
               [closed_cell False 1, closed_cell False 1]],
      mine_count = Some 1, hinted_cells = {}\<rparr>"

text \<open>
  The board of a won game: \<open>corner_board\<close> with its three cells without a mine opened.
\<close>

definition cleared_board :: grid where
  "cleared_board =
     corner_board\<lparr>cells := [[closed_cell True 0, opened_cell 1],
                            [opened_cell 1, opened_cell 1]]\<rparr>"

text \<open>
  A board of 2 rows and 5 columns with a mine at (0, 0).  Columns 2 and 3 and the cell
  (1, 4) are opened; the only unopened cell with the count 0 is (0, 4), behind the opened cells.
\<close>

definition strip_board :: grid where
  "strip_board =
     \<lparr>width = 5, height = 2, difficulty = 1,
      cells = [[closed_cell True 0, closed_cell False 1, opened_cell 0, opened_cell 0,
                closed_cell False 0],
               [closed_cell False 1, closed_cell False 1, opened_cell 0, opened_cell 0,
                opened_cell 0]],
      mine_count = Some 1, hinted_cells = {}\<rparr>"

text \<open>
  The board of 2 rows and 5 columns with its mine at (1, 4), the last coordinate of the
  scan; it is the result of \<open>Grid_init [9] 5 2 1\<close>.
\<close>

definition far_mine_board :: grid where
  "far_mine_board =
     \<lparr>width = 5, height = 2, difficulty = 1,
      cells = [[closed_cell False 0, closed_cell False 0, closed_cell False 0,
                closed_cell False 1, closed_cell False 1],
               [closed_cell False 0, closed_cell False 0, closed_cell False 0,
                closed_cell False 1, closed_cell True 0]],
      mine_count = Some 1, hinted_cells = {}\<rparr>"

text \<open>
  The board of 5 rows and 1 column that \<open>Grid_init [0] 1 5 1\<close> returns.
\<close>

definition narrow_board :: grid where
  "narrow_board =
     \<lparr>width = 1, height = 5, difficulty = 1,
      cells = [[closed_cell True 0], [closed_cell False 1], [closed_cell False 0],
               [closed_cell False 0], [closed_cell False 0]],
      mine_count = Some 1, hinted_cells = {}\<rparr>"

text \<open>
  The 3 by 3 board with mines at (0, 0) and (2, 2); it is the result of
  \<open>Grid_init [0, 7] 3 3 2\<close>.
\<close>

definition diagonal_board :: grid where
  "diagonal_board =
     \<lparr>width = 3, height = 3, difficulty = 2,
      cells = [[Cell \<lparr>has_mine = True, surrounding_mines_count = 0, is_open = False\<rparr>,
                Cell \<lparr>has_mine = False, surrounding_mines_count = 1, is_open = False\<rparr>,
                Cell \<lparr>has_mine = False, surrounding_mines_count = 0, is_open = False\<rparr>],
               [Cell \<lparr>has_mine = False, surrounding_mines_count = 1, is_open = False\<rparr>,
                Cell \<lparr>has_mine = False, surrounding_mines_count = 2, is_open = False\<rparr>,
                Cell \<lparr>has_mine = False, surrounding_mines_count = 1, is_open = False\<rparr>],
               [Cell \<lparr>has_mine = False, surrounding_mines_count = 0, is_open = False\<rparr>,
                Cell \<lparr>has_mine = False, surrounding_mines_count = 1, is_open = False\<rparr>,
                Cell \<lparr>has_mine = True, surrounding_mines_count = 0, is_open = False\<rparr>]],
      mine_count = Some 2, hinted_cells = {}\<rparr>"

subsection \<open>Auxiliary notions of the proofs\<close>


text \<open>
  Two boards agree on every attribute but \<open>cells\<close>.
\<close>

definition same_attributes :: "grid \<Rightarrow> grid \<Rightarrow> bool" where
  "same_attributes g g' \<longleftrightarrow>
     width g' = width g \<and> height g' = height g \<and> difficulty g' = difficulty g \<and>
     mine_count g' = mine_count g \<and> hinted_cells g' = hinted_cells g"

text \<open>
  The number that \<open>count_block\<close> computes for a coordinate: the mines in the block of 3 by 3
  coordinates around it that lie in the grid.
\<close>

definition around :: "grid \<Rightarrow> coordinate \<Rightarrow> int" where
  "around g p =
     int (length (filter (\<lambda>q. q \<in> grid_coordinates g \<and> mined g q) (block_around (fst p) (snd p))))"

text \<open>
  The cell that the construction leaves at a coordinate, given the coordinates of the grid
  and the mine positions.
\<close>

definition built_cell :: "coordinate set \<Rightarrow> coordinate set \<Rightarrow> coordinate \<Rightarrow> cell" where
  "built_cell G M q =
     \<lparr>has_mine = (q \<in> M),
      surrounding_mines_count = (if q \<in> M then 0 else int (card {p \<in> G. adjacent q p \<and> p \<in> M})),
      is_open = False\<rparr>"

text \<open>
  The value of \<open>mine_count\<close> after the \<open>if\<close> chain of \<open>Grid_init\<close>, and the object at the
  moment \<open>_set_cell_mines_and_surrounding_counts\<close> is called.
\<close>

definition tier_mine_count :: "int \<Rightarrow> int \<Rightarrow> int option" where
  "tier_mine_count d n =
     (if d = 1 then Some (max 1 (truncated_share n 10))
      else if d = 2 then Some (max 2 (truncated_share n 15))
      else if d = 3 then Some (max 3 (truncated_share n 20))
      else None)"

definition fresh_grid :: "int \<Rightarrow> int \<Rightarrow> int \<Rightarrow> grid" where
  "fresh_grid w h d =
     \<lparr>width = w, height = h, difficulty = d,
      cells = map (\<lambda>_. map (\<lambda>_. Cell empty_cell) (range_py 0 w)) (range_py 0 h),
      mine_count = tier_mine_count d (w * h), hinted_cells = {}\<rparr>"

section \<open>The hint search\<close>

lemma found_here_fully_safe: "found_here g row col = Inr True \<longleftrightarrow> fully_safe g (row, col)"
  by (auto simp: found_here_def fully_safe_def unhinted_unopened_non_mine_def
      split: sum.splits bool.splits)

lemma search_sound:
  "recursive_backtrack_search g row col visited = Inr (Some p, visited') \<Longrightarrow>
     fully_safe g p \<and> p \<in> insert (row, col) (grid_coordinates g)"
  "search_neighbours g ns visited = Inr (Some p, visited') \<Longrightarrow>
     fully_safe g p \<and> p \<in> set ns \<union> grid_coordinates g"
proof (induction g row col visited and g ns visited arbitrary: visited' and visited'
    rule: recursive_backtrack_search_search_neighbours.induct)
  case (1 g row col visited)
  show ?case
  proof (cases "found_here g row col")
    case (Inl e)
    with 1(2) show ?thesis by simp
  next
    case (Inr b)
    show ?thesis
    proof (cases b)
      case True
      with Inr have fh: "found_here g row col = Inr True" by simp
      with 1(2) show ?thesis by (auto simp: found_here_fully_safe[symmetric])
    next
      case False
      with Inr have fh: "found_here g row col = Inr False" by simp
      with 1(2) have "search_neighbours g (get_neighbours g row col) (insert (row, col) visited)
          = Inr (Some p, visited')" by simp
      from 1(1)[OF fh refl this] get_neighbours_in_grid[of g row col] show ?thesis by auto
    qed
  qed
next
  case (2 g visited)
  then show ?case by simp
next
  case (3 g n ns visited)
  show ?case
  proof (cases "n \<in> visited")
    case True
    with 3(3)[OF _ ] 3(4) show ?thesis by auto
  next
    case False
    with 3(4) obtain r1 v1 where
      call: "recursive_backtrack_search g (fst n) (snd n) visited = Inr (r1, v1)"
      by (auto split: sum.splits)
    show ?thesis
    proof (cases r1)
      case None
      with 3(4) False call have "search_neighbours g ns v1 = Inr (Some p, visited')" by simp
      from 3(2)[OF False call refl None this] show ?thesis by auto
    next
      case (Some a)
      with 3(4) False call have "recursive_backtrack_search g (fst n) (snd n) visited
          = Inr (Some p, visited')" by simp
      from 3(1)[OF False this] show ?thesis by auto
    qed
  qed
qed

lemma visited_grows:
  "recursive_backtrack_search g row col visited = Inr (res, visited') \<Longrightarrow>
     insert (row, col) visited \<subseteq> visited' \<and> visited' \<subseteq> insert (row, col) visited \<union> grid_coordinates g"
  "search_neighbours g ns visited = Inr (res, visited') \<Longrightarrow>
     visited \<subseteq> visited' \<and> visited' \<subseteq> visited \<union> set ns \<union> grid_coordinates g"
proof (induction g row col visited and g ns visited arbitrary: res visited' and res visited'
    rule: recursive_backtrack_search_search_neighbours.induct)
  case (1 g row col visited)
  show ?case
  proof (cases "found_here g row col")
    case (Inl e)
    with 1(2) show ?thesis by simp
  next
    case (Inr b)
    show ?thesis
    proof (cases b)
      case True
      with Inr have fh: "found_here g row col = Inr True" by simp
      with 1(2) show ?thesis by auto
    next
      case False
      with Inr have fh: "found_here g row col = Inr False" by simp
      with 1(2) have "search_neighbours g (get_neighbours g row col) (insert (row, col) visited)
          = Inr (res, visited')" by simp
      from 1(1)[OF fh refl this] get_neighbours_in_grid[of g row col] show ?thesis by auto
    qed
  qed
next
  case (2 g visited)
  then show ?case by simp
next
  case (3 g n ns visited)
  show ?case
  proof (cases "n \<in> visited")
    case True
    with 3(3)[OF _ ] 3(4) show ?thesis by auto
  next
    case False
    with 3(4) obtain r1 v1 where
      call: "recursive_backtrack_search g (fst n) (snd n) visited = Inr (r1, v1)"
      by (auto split: sum.splits)
    from 3(1)[OF False call] have sub1: "visited \<subseteq> v1" "v1 \<subseteq> insert n visited \<union> grid_coordinates g"
      by auto
    show ?thesis
    proof (cases r1)
      case None
      with 3(4) False call have "search_neighbours g ns v1 = Inr (res, visited')" by simp
      from 3(2)[OF False call refl None this] sub1 show ?thesis by auto
    next
      case (Some a)
      with 3(4) False call sub1 show ?thesis by auto
    qed
  qed
qed




lemma subscript_in_range:
  "0 \<le> i \<Longrightarrow> i < int (length xs) \<Longrightarrow> subscript xs i = Inr (xs ! nat i)"
  by (simp add: subscript_def)

lemma cell_at_in_grid:
  assumes "rectangular g" "unmarked g" "(row, col) \<in> grid_coordinates g"
  shows "\<exists>c. cell_at g row col = Inr c \<and> cells g ! nat row ! nat col = Cell c"
proof -
  from assms(3) have rc: "0 \<le> row" "row < height g" "0 \<le> col" "col < width g"
    by (auto simp: grid_coordinates_def)
  with assms(1) have r: "row < int (length (cells g))" by (simp add: rectangular_def)
  then have mem: "cells g ! nat row \<in> set (cells g)" using rc by simp
  with assms(1) rc have c: "col < int (length (cells g ! nat row))"
    by (auto simp: rectangular_def list_all_iff)
  then have "cells g ! nat row ! nat col \<in> set (cells g ! nat row)" using rc by simp
  with assms(2) mem have "cells g ! nat row ! nat col \<noteq> Marker_X"
    by (auto simp: unmarked_def list_all_iff)
  then obtain cl where "cells g ! nat row ! nat col = Cell cl"
    by (cases "cells g ! nat row ! nat col") auto
  with r c rc show ?thesis
    by (simp add: cell_at_def subscript_in_range)
qed










subsection \<open>The scan of hint and the depth of the search\<close>

lemma set_scan_order: "set (scan_order g) = grid_coordinates g"
  by (auto simp: scan_order_def grid_coordinates_def set_range_py)

lemma length_range_py: "length (range_py a b) = nat (b - a)"
  by (simp add: range_py_def)

lemma length_scan_order: "length (scan_order g) = nat (height g) * nat (width g)"
  by (simp add: scan_order_def length_concat o_def length_range_py sum_list_triv)

lemma card_grid_coordinates: "card (grid_coordinates g) = nat (height g) * nat (width g)"
  by (simp add: grid_coordinates_def card_cartesian_product)

lemma hint_scan_some:
  "hint_scan g cs = Inr (Some p, g') \<Longrightarrow>
     fully_safe g p \<and> p \<in> set cs \<union> grid_coordinates g \<and>
     g' = g\<lparr>hinted_cells := insert p (hinted_cells g)\<rparr>"
proof (induction g cs rule: hint_scan.induct)
  case (1 g)
  then show ?case by simp
next
  case (2 g row col rest)
  show ?case
  proof (cases "unhinted_unopened_non_mine g row col")
    case (Inl e)
    with 2(3) show ?thesis by simp
  next
    case (Inr b)
    show ?thesis
    proof (cases b)
      case False
      with Inr have c: "unhinted_unopened_non_mine g row col = Inr False" by simp
      with 2(3) have "hint_scan g rest = Inr (Some p, g')" by simp
      from 2(2)[OF c refl this] show ?thesis by auto
    next
      case True
      with Inr have c: "unhinted_unopened_non_mine g row col = Inr True" by simp
      with 2(3) obtain r1 v1 where
        call: "recursive_backtrack_search g row col {} = Inr (r1, v1)"
        by (auto split: sum.splits)
      show ?thesis
      proof (cases r1)
        case None
        with 2(3) c call have "hint_scan g rest = Inr (Some p, g')" by simp
        from 2(1)[OF c refl call refl None this] show ?thesis by auto
      next
        case (Some q)
        with 2(3) c call have "q = p" "g' = g\<lparr>hinted_cells := insert p (hinted_cells g)\<rparr>"
          by auto
        with search_sound(1)[of g row col "{}" q v1] call Some show ?thesis by auto
      qed
    qed
  qed
qed

lemma hint_scan_none: "hint_scan g cs = Inr (None, g') \<Longrightarrow> g' = g"
  by (induction g cs rule: hint_scan.induct)
     (auto split: sum.splits bool.splits option.splits)





lemma within_budget:
  "(row, col) \<in> grid_coordinates g \<Longrightarrow> (row, col) \<notin> visited \<Longrightarrow>
     card (grid_coordinates g - visited) \<le> d \<Longrightarrow>
     search_within d g row col visited = Some (recursive_backtrack_search g row col visited)"
  "set ns \<subseteq> grid_coordinates g \<Longrightarrow> card (grid_coordinates g - visited) \<le> d \<Longrightarrow>
     neighbours_within d g ns visited = Some (search_neighbours g ns visited)"
proof (induction g row col visited and g ns visited arbitrary: d and d
    rule: recursive_backtrack_search_search_neighbours.induct)
  case (1 g row col visited)
  have fin: "finite (grid_coordinates g - visited)" by (simp add: finite_grid_coordinates)
  from 1(2,3) have mem: "(row, col) \<in> grid_coordinates g - visited" by simp
  with fin have pos: "0 < card (grid_coordinates g - visited)" by (auto simp: card_gt_0_iff)
  with 1(4) obtain d' where d: "d = Suc d'" by (cases d) auto
  have "grid_coordinates g - insert (row, col) visited = (grid_coordinates g - visited) - {(row, col)}"
    by auto
  with mem fin have "card (grid_coordinates g - insert (row, col) visited)
      = card (grid_coordinates g - visited) - 1" by simp
  with 1(4) d pos have le: "card (grid_coordinates g - insert (row, col) visited) \<le> d'" by simp
  show ?case
  proof (cases "found_here g row col")
    case (Inl e)
    with d show ?thesis by simp
  next
    case (Inr b)
    show ?thesis
    proof (cases b)
      case True
      with Inr d show ?thesis by simp
    next
      case False
      with Inr have fh: "found_here g row col = Inr False" by simp
      from 1(1)[OF fh refl get_neighbours_in_grid le] fh d show ?thesis by simp
    qed
  qed
next
  case (2 g visited)
  then show ?case by simp
next
  case (3 g n ns visited)
  from 3(4) have n: "(fst n, snd n) \<in> grid_coordinates g" and ns: "set ns \<subseteq> grid_coordinates g"
    by auto
  show ?case
  proof (cases "n \<in> visited")
    case True
    with 3(3)[OF _ ns 3(5)] show ?thesis by simp
  next
    case False
    then have nv: "(fst n, snd n) \<notin> visited" by simp
    from 3(1)[OF False n nv 3(5)]
    have call: "search_within d g (fst n) (snd n) visited
        = Some (recursive_backtrack_search g (fst n) (snd n) visited)" .
    show ?thesis
    proof (cases "recursive_backtrack_search g (fst n) (snd n) visited")
      case (Inl e)
      with call False show ?thesis by simp
    next
      case (Inr rv)
      obtain r1 v1 where rv: "rv = (r1, v1)" by (cases rv)
      show ?thesis
      proof (cases r1)
        case None
        from visited_grows(1)[OF Inr[unfolded rv]] have "visited \<subseteq> v1" by auto
        then have "card (grid_coordinates g - v1) \<le> card (grid_coordinates g - visited)"
          by (intro card_mono) (auto simp: finite_grid_coordinates)
        with 3(5) have le: "card (grid_coordinates g - v1) \<le> d" by simp
        from 3(2)[OF False Inr[unfolded rv] refl None ns le] call Inr rv None False
        show ?thesis by simp
      next
        case (Some q)
        with call Inr rv False show ?thesis by simp
      qed
    qed
  qed
qed

lemma hint_scan_within_budget:
  "set cs \<subseteq> grid_coordinates g \<Longrightarrow> card (grid_coordinates g) \<le> d \<Longrightarrow>
     hint_scan_within d g cs = Some (hint_scan g cs)"
proof (induction cs)
  case Nil
  show ?case by simp
next
  case (Cons p cs)
  obtain row col where p: "p = (row, col)" by (cases p)
  with Cons.prems have pin: "(row, col) \<in> grid_coordinates g" and
    sub: "set cs \<subseteq> grid_coordinates g" by auto
  from Cons.prems(2) have "card (grid_coordinates g - {}) \<le> d" by simp
  from within_budget(1)[OF pin _ this]
  have s: "search_within d g row col {} = Some (recursive_backtrack_search g row col {})" by simp
  from Cons.IH[OF sub Cons.prems(2)] s p show ?case
    by (simp del: recursive_backtrack_search.simps
        split: sum.splits bool.splits option.splits prod.splits)
qed

lemma card_grid_le: "card (grid_coordinates g) \<le> nat (width g * height g)"
proof (cases "0 < height g \<and> 0 < width g")
  case True
  then show ?thesis by (simp add: card_grid_coordinates nat_mult_distrib mult.commute)
next
  case False
  then have "grid_coordinates g = {}" by (auto simp: grid_coordinates_def)
  then show ?thesis by simp
qed

lemma hint_within_grid_size: "hint_within (nat (width g * height g)) g = Some (hint g)"
  unfolding hint_within_def hint_def
  by (rule hint_scan_within_budget) (simp_all add: set_scan_order card_grid_le)

lemma length_scan_le: "length (scan_order g) \<le> nat (width g * height g)"
  using card_grid_le[of g] by (simp add: length_scan_order card_grid_coordinates)

section \<open>The construction\<close>

subsection \<open>The sample and the coordinates\<close>

lemma draw_index:
  "pool \<noteq> [] \<Longrightarrow> (case rs of [] \<Rightarrow> 0 | r # _ \<Rightarrow> r mod length pool) < length pool"
  by (cases rs) auto

lemma length_draw: "k \<le> length pool \<Longrightarrow> length (draw rs pool k) = k"
proof (induction k arbitrary: rs pool)
  case 0
  show ?case by simp
next
  case (Suc k)
  then have ne: "pool \<noteq> []" by auto
  let ?j = "case rs of [] \<Rightarrow> 0 | r # _ \<Rightarrow> r mod length pool"
  from draw_index[OF ne] have j: "?j < length pool" .
  then have "k \<le> length (take ?j pool @ drop (Suc ?j) pool)" using Suc.prems by auto
  from Suc.IH[OF this] ne show ?case by (simp add: Let_def)
qed

lemma set_draw: "set (draw rs pool k) \<subseteq> set pool"
proof (induction k arbitrary: rs pool)
  case 0
  show ?case by simp
next
  case (Suc k)
  show ?case
  proof (cases "pool = []")
    case True
    then show ?thesis by simp
  next
    case False
    let ?j = "case rs of [] \<Rightarrow> 0 | r # _ \<Rightarrow> r mod length pool"
    from draw_index[OF False] have j: "?j < length pool" .
    have "set (take ?j pool @ drop (Suc ?j) pool) \<subseteq> set pool"
      using set_take_subset[of ?j pool] set_drop_subset[of "Suc ?j" pool] by auto
    with Suc.IH[of "tl rs" "take ?j pool @ drop (Suc ?j) pool"] j False
    show ?thesis by (auto simp: Let_def)
  qed
qed

lemma distinct_without_nth:
  assumes "distinct pool" "j < length pool"
  shows "distinct (take j pool @ drop (Suc j) pool)"
    and "pool ! j \<notin> set (take j pool @ drop (Suc j) pool)"
proof -
  from id_take_nth_drop[OF assms(2)] assms(1)
  have "distinct (take j pool @ pool ! j # drop (Suc j) pool)" by simp
  then show "distinct (take j pool @ drop (Suc j) pool)"
    and "pool ! j \<notin> set (take j pool @ drop (Suc j) pool)" by auto
qed

lemma distinct_draw: "distinct pool \<Longrightarrow> distinct (draw rs pool k)"
proof (induction k arbitrary: rs pool)
  case 0
  show ?case by simp
next
  case (Suc k)
  show ?case
  proof (cases "pool = []")
    case True
    then show ?thesis by simp
  next
    case False
    let ?j = "case rs of [] \<Rightarrow> 0 | r # _ \<Rightarrow> r mod length pool"
    let ?rest = "take ?j pool @ drop (Suc ?j) pool"
    from draw_index[OF False] have j: "?j < length pool" .
    from distinct_without_nth[OF Suc.prems j]
    have d: "distinct ?rest" and n: "pool ! ?j \<notin> set ?rest" .
    from set_draw[of "tl rs" ?rest k] n have "pool ! ?j \<notin> set (draw (tl rs) ?rest k)" by auto
    with Suc.IH[OF d, of "tl rs"] False show ?thesis by (simp add: Let_def)
  qed
qed

text \<open>
  Every sample without replacement is the result of some draws, so a statement for all
  draws is a statement for every result \<open>random.sample\<close> can have.
\<close>

lemma set_without_nth:
  assumes "distinct pool" "j < length pool"
  shows "set (take j pool @ drop (Suc j) pool) = set pool - {pool ! j}"
proof -
  have "set pool = set (take j pool @ pool ! j # drop (Suc j) pool)"
    using id_take_nth_drop[OF assms(2)] by simp
  then have "set pool = insert (pool ! j) (set (take j pool @ drop (Suc j) pool))" by simp
  with distinct_without_nth(2)[OF assms] show ?thesis by auto
qed

lemma draw_reaches_every_sample:
  "distinct pool \<Longrightarrow> distinct ms \<Longrightarrow> set ms \<subseteq> set pool \<Longrightarrow>
     \<exists>rs. draw rs pool (length ms) = ms"
proof (induction ms arbitrary: pool)
  case Nil
  show ?case by simp
next
  case (Cons m ms)
  from Cons.prems(3) have "m \<in> set pool" by simp
  then obtain j where j: "j < length pool" "pool ! j = m" by (auto simp: in_set_conv_nth)
  let ?rest = "take j pool @ drop (Suc j) pool"
  from distinct_without_nth(1)[OF Cons.prems(1) j(1)] have d: "distinct ?rest" .
  from Cons.prems(2,3) j set_without_nth[OF Cons.prems(1) j(1)]
  have s: "set ms \<subseteq> set ?rest" by auto
  from Cons.prems(2) have "distinct ms" by simp
  from Cons.IH[OF d this s] obtain rs where rs: "draw rs ?rest (length ms) = ms" by blast
  from j have ne: "pool \<noteq> []" by auto
  from j rs ne have "draw (j # rs) pool (length (m # ms)) = m # ms" by (simp add: Let_def)
  then show ?case by blast
qed

lemma positions_product:
  "generate_grid_coordinate_positions g = List.product (range_py 0 (height g)) (range_py 0 (width g))"
  by (simp add: generate_grid_coordinate_positions_def product_concat_map)

lemma distinct_range_py: "distinct (range_py a b)"
  by (simp add: range_py_def)

lemma distinct_positions: "distinct (generate_grid_coordinate_positions g)"
  by (simp add: positions_product distinct_product distinct_range_py)

lemma set_positions: "set (generate_grid_coordinate_positions g) = grid_coordinates g"
  by (simp add: positions_product grid_coordinates_def set_range_py)

lemma length_positions:
  "length (generate_grid_coordinate_positions g) = nat (height g) * nat (width g)"
  by (simp add: positions_product length_range_py)

lemma in_grid_indices:
  assumes "rectangular g" "(row, col) \<in> grid_coordinates g"
  shows "0 \<le> row" "0 \<le> col" "nat row < length (cells g)" "nat col < length (cells g ! nat row)"
    "int (length (cells g ! nat row)) = width g"
proof -
  from assms(2) show rc: "0 \<le> row" "0 \<le> col" by (auto simp: grid_coordinates_def)
  from assms(2) have lt: "row < height g" "col < width g" by (auto simp: grid_coordinates_def)
  with assms(1) rc show r: "nat row < length (cells g)"
    by (simp add: rectangular_def nat_less_iff)
  then have "cells g ! nat row \<in> set (cells g)" by simp
  with assms(1) rc lt show w: "int (length (cells g ! nat row)) = width g"
    by (auto simp: rectangular_def list_all_iff)
  with rc lt show "nat col < length (cells g ! nat row)" by simp
qed

lemma subscripts_in_grid:
  assumes "rectangular g" "(row, col) \<in> grid_coordinates g"
  shows "subscript (cells g) row = Inr (cells g ! nat row)"
    and "subscript (cells g ! nat row) col = Inr (cells g ! nat row ! nat col)"
    and "position (cells g) row = nat row"
    and "position (cells g ! nat row) col = nat col"
  using in_grid_indices[OF assms] by (simp_all add: subscript_def position_def)

lemma cell_at_entry:
  assumes "rectangular g" "(row, col) \<in> grid_coordinates g"
  shows "cell_at g row col =
    (case cells g ! nat row ! nat col of Cell c \<Rightarrow> Inr c | Marker_X \<Rightarrow> Inl AttributeError)"
  using subscripts_in_grid(1,2)[OF assms] by (simp add: cell_at_def split: slot.splits)

lemma with_entry_fields [simp]:
  "width (with_entry g row col s) = width g"
  "height (with_entry g row col s) = height g"
  "difficulty (with_entry g row col s) = difficulty g"
  "mine_count (with_entry g row col s) = mine_count g"
  "hinted_cells (with_entry g row col s) = hinted_cells g"
  "grid_coordinates (with_entry g row col s) = grid_coordinates g"
  by (simp_all add: with_entry_def grid_coordinates_def)

lemma rectangular_with_entry:
  assumes "rectangular g"
  shows "rectangular (with_entry g row col s)"
proof (cases "nat row < length (cells g)")
  case False
  then show ?thesis using assms by (simp add: with_entry_def rectangular_def list_update_beyond)
next
  case True
  then have mem: "cells g ! nat row \<in> set (cells g)" by simp
  have "set ((cells g)[nat row := (cells g ! nat row)[nat col := s]])
      \<subseteq> insert ((cells g ! nat row)[nat col := s]) (set (cells g))"
    by (rule set_update_subset_insert)
  with assms mem show ?thesis
    by (auto simp: with_entry_def rectangular_def list_all_iff)
qed

lemma unmarked_with_entry:
  assumes "unmarked g" "s \<noteq> Marker_X"
  shows "unmarked (with_entry g row col s)"
proof (cases "nat row < length (cells g)")
  case False
  then show ?thesis using assms by (simp add: with_entry_def unmarked_def list_update_beyond)
next
  case True
  then have mem: "cells g ! nat row \<in> set (cells g)" by simp
  have a: "set ((cells g)[nat row := (cells g ! nat row)[nat col := s]])
      \<subseteq> insert ((cells g ! nat row)[nat col := s]) (set (cells g))"
    by (rule set_update_subset_insert)
  have b: "set ((cells g ! nat row)[nat col := s]) \<subseteq> insert s (set (cells g ! nat row))"
    by (rule set_update_subset_insert)
  have "Marker_X \<notin> set x"
    if x: "x \<in> set ((cells g)[nat row := (cells g ! nat row)[nat col := s]])" for x
  proof (cases "x = (cells g ! nat row)[nat col := s]")
    case True
    from assms(1) mem have "Marker_X \<notin> set (cells g ! nat row)"
      by (auto simp: unmarked_def list_all_iff)
    with b assms(2) True show ?thesis by auto
  next
    case False
    with a x have "x \<in> set (cells g)" by auto
    with assms(1) show ?thesis by (auto simp: unmarked_def list_all_iff)
  qed
  then show ?thesis
    by (auto simp: with_entry_def unmarked_def list_all_iff)
qed

lemma entry_with_entry:
  assumes "rectangular g" "(row, col) \<in> grid_coordinates g" "(r, c) \<in> grid_coordinates g"
  shows "cells (with_entry g row col s) ! nat r ! nat c =
    (if (r, c) = (row, col) then s else cells g ! nat r ! nat c)"
proof -
  note a = in_grid_indices[OF assms(1,2)] and b = in_grid_indices[OF assms(1,3)]
  show ?thesis
  proof (cases "r = row")
    case True
    with a b show ?thesis by (auto simp: with_entry_def nat_eq_iff)
  next
    case False
    with b(1) a(1) have "nat r \<noteq> nat row" by simp
    then have "cells (with_entry g row col s) ! nat r = cells g ! nat r"
      by (simp add: with_entry_def)
    with False show ?thesis by simp
  qed
qed

lemma cell_at_with_entry:
  assumes "rectangular g" "(row, col) \<in> grid_coordinates g" "(r, c) \<in> grid_coordinates g"
  shows "cell_at (with_entry g row col s) r c =
    (if (r, c) = (row, col) then (case s of Cell cl \<Rightarrow> Inr cl | Marker_X \<Rightarrow> Inl AttributeError)
     else cell_at g r c)"
proof -
  have "(r, c) \<in> grid_coordinates (with_entry g row col s)" using assms(3) by simp
  from cell_at_entry[OF rectangular_with_entry[OF assms(1)] this]
    entry_with_entry[OF assms] cell_at_entry[OF assms(1,3)]
  show ?thesis by simp
qed

lemma update_cell_in_grid:
  assumes "rectangular g" "(row, col) \<in> grid_coordinates g" "cell_at g row col = Inr c"
  shows "update_cell f g row col = Inr (with_entry g row col (Cell (f c)))"
proof -
  from cell_at_entry[OF assms(1,2)] assms(3) have "cells g ! nat row ! nat col = Cell c"
    by (simp split: slot.splits)
  with subscripts_in_grid[OF assms(1,2)] show ?thesis
    by (simp add: update_cell_def with_entry_def)
qed

lemma store_marker_in_grid:
  assumes "rectangular g" "(row, col) \<in> grid_coordinates g"
  shows "store_marker g row col = Inr (with_entry g row col Marker_X)"
  using subscripts_in_grid[OF assms] by (simp add: store_marker_def with_entry_def)

subsection \<open>The two loops over the positions\<close>

lemma same_attributes_refl [simp]: "same_attributes g g"
  by (simp add: same_attributes_def)

lemma same_attributes_with_entry [simp]: "same_attributes g (with_entry g row col s)"
  by (simp add: same_attributes_def)

lemma same_attributes_trans:
  "same_attributes g g1 \<Longrightarrow> same_attributes g1 g2 \<Longrightarrow> same_attributes g g2"
  by (simp add: same_attributes_def)

lemma same_attributes_grid: "same_attributes g g' \<Longrightarrow> grid_coordinates g' = grid_coordinates g"
  by (simp add: same_attributes_def grid_coordinates_def)

lemma place_mines_result:
  assumes "rectangular g" "unmarked g" "set ps \<subseteq> grid_coordinates g"
  shows "\<exists>g'. place_mines g ps = Inr g' \<and> rectangular g' \<and> unmarked g' \<and> same_attributes g g' \<and>
    (\<forall>q \<in> grid_coordinates g. \<exists>c. cell_at g (fst q) (snd q) = Inr c \<and>
       cell_at g' (fst q) (snd q) = Inr (if q \<in> set ps then c\<lparr>has_mine := True\<rparr> else c))"
  using assms
proof (induction ps arbitrary: g)
  case Nil
  have "\<exists>c. cell_at g (fst q) (snd q) = Inr c" if "q \<in> grid_coordinates g" for q
    using cell_at_in_grid[OF Nil(1,2), of "fst q" "snd q"] that by auto
  then show ?case using Nil by auto
next
  case (Cons p ps)
  obtain row col where p: "p = (row, col)" by (cases p)
  with Cons.prems have pin: "(row, col) \<in> grid_coordinates g" and
    sub: "set ps \<subseteq> grid_coordinates g" by auto
  from cell_at_in_grid[OF Cons.prems(1,2) pin] obtain c0 where
    c0: "cell_at g row col = Inr c0" by blast
  let ?g1 = "with_entry g row col (Cell (c0\<lparr>has_mine := True\<rparr>))"
  from update_cell_in_grid[OF Cons.prems(1) pin c0]
  have upd: "update_cell (\<lambda>c. c\<lparr>has_mine := True\<rparr>) g row col = Inr ?g1" .
  have r1: "rectangular ?g1" using Cons.prems(1) by (rule rectangular_with_entry)
  have u1: "unmarked ?g1" using Cons.prems(2) by (rule unmarked_with_entry) simp
  from sub have sub1: "set ps \<subseteq> grid_coordinates ?g1" by simp
  from Cons.IH[OF r1 u1 sub1] obtain g' where
    g': "place_mines ?g1 ps = Inr g'" "rectangular g'" "unmarked g'" "same_attributes ?g1 g'"
    and cells': "\<forall>q \<in> grid_coordinates ?g1. \<exists>c. cell_at ?g1 (fst q) (snd q) = Inr c \<and>
       cell_at g' (fst q) (snd q) = Inr (if q \<in> set ps then c\<lparr>has_mine := True\<rparr> else c)"
    by blast
  have "\<exists>c. cell_at g (fst q) (snd q) = Inr c \<and>
       cell_at g' (fst q) (snd q) = Inr (if q \<in> set (p # ps) then c\<lparr>has_mine := True\<rparr> else c)"
    if q: "q \<in> grid_coordinates g" for q
  proof -
    obtain r c where rc: "q = (r, c)" by (cases q)
    from cell_at_in_grid[OF Cons.prems(1,2) q[unfolded rc]] obtain cq where
      cq: "cell_at g r c = Inr cq" by blast
    from cells' q rc obtain c1 where
      c1: "cell_at ?g1 r c = Inr c1"
        "cell_at g' r c = Inr (if q \<in> set ps then c1\<lparr>has_mine := True\<rparr> else c1)" by auto
    from cell_at_with_entry[OF Cons.prems(1) pin q[unfolded rc], of "Cell (c0\<lparr>has_mine := True\<rparr>)"]
    have "cell_at ?g1 r c = (if (r, c) = (row, col) then Inr (c0\<lparr>has_mine := True\<rparr>) else cell_at g r c)"
      by simp
    with c1 cq c0 rc p show ?thesis by (auto split: if_splits)
  qed
  with g' upd p same_attributes_trans[OF same_attributes_with_entry g'(4)] show ?case by auto
qed

lemma count_block_result:
  assumes "rectangular g" "unmarked g"
  shows "count_block g block n =
    Inr (n + int (length (filter (\<lambda>q. q \<in> grid_coordinates g \<and> mined g q) block)))"
proof (induction block arbitrary: n)
  case Nil
  show ?case by simp
next
  case (Cons p block)
  obtain r c where p: "p = (r, c)" by (cases p)
  show ?case
  proof (cases "(r, c) \<in> grid_coordinates g")
    case False
    then have "\<not> is_valid_position g r c" by (auto simp: is_valid_position_def grid_coordinates_def)
    with False p Cons.IH show ?thesis by simp
  next
    case True
    then have v: "is_valid_position g r c" by (auto simp: is_valid_position_def grid_coordinates_def)
    from cell_at_in_grid[OF assms True] obtain cl where cl: "cell_at g r c = Inr cl" by blast
    then have "mined g (r, c) = has_mine cl" by (simp add: mined_def)
    with v cl True p Cons.IH show ?thesis by simp
  qed
qed

lemma mined_with_count:
  assumes "rectangular g" "(row, col) \<in> grid_coordinates g" "cell_at g row col = Inr c0"
    "q \<in> grid_coordinates g"
  shows "mined (with_entry g row col (Cell (c0\<lparr>surrounding_mines_count := k\<rparr>))) q = mined g q"
proof -
  obtain r c where rc: "q = (r, c)" by (cases q)
  from cell_at_with_entry[OF assms(1,2) assms(4)[unfolded rc]] assms(3) rc
  show ?thesis by (auto simp: mined_def)
qed

lemma around_with_count:
  assumes "rectangular g" "(row, col) \<in> grid_coordinates g" "cell_at g row col = Inr c0"
  shows "around (with_entry g row col (Cell (c0\<lparr>surrounding_mines_count := k\<rparr>))) q = around g q"
proof -
  have "filter (\<lambda>q. q \<in> grid_coordinates g \<and>
          mined (with_entry g row col (Cell (c0\<lparr>surrounding_mines_count := k\<rparr>))) q) xs
      = filter (\<lambda>q. q \<in> grid_coordinates g \<and> mined g q) xs" for xs
    by (rule filter_cong) (auto simp: mined_with_count[OF assms])
  then show ?thesis by (simp add: around_def)
qed

lemma set_surrounding_mine_count_result:
  assumes "rectangular g" "unmarked g" "set ps \<subseteq> grid_coordinates g"
  shows "\<exists>g'. set_surrounding_mine_count g ps = Inr g' \<and> rectangular g' \<and> unmarked g' \<and>
    same_attributes g g' \<and>
    (\<forall>q \<in> grid_coordinates g. \<exists>c. cell_at g (fst q) (snd q) = Inr c \<and>
       cell_at g' (fst q) (snd q) =
         Inr (if q \<in> set ps then c\<lparr>surrounding_mines_count := around g q\<rparr> else c))"
  using assms
proof (induction ps arbitrary: g)
  case Nil
  have "\<exists>c. cell_at g (fst q) (snd q) = Inr c" if "q \<in> grid_coordinates g" for q
    using cell_at_in_grid[OF Nil(1,2), of "fst q" "snd q"] that by auto
  then show ?case using Nil by auto
next
  case (Cons p ps)
  obtain row col where p: "p = (row, col)" by (cases p)
  with Cons.prems have pin: "(row, col) \<in> grid_coordinates g" and
    sub: "set ps \<subseteq> grid_coordinates g" by auto
  from cell_at_in_grid[OF Cons.prems(1,2) pin] obtain c0 where
    c0: "cell_at g row col = Inr c0" by blast
  let ?k = "around g (row, col)"
  let ?g1 = "with_entry g row col (Cell (c0\<lparr>surrounding_mines_count := ?k\<rparr>))"
  from count_block_result[OF Cons.prems(1,2), of "block_around row col" 0]
  have cnt: "count_block g (block_around row col) 0 = Inr ?k" by (simp add: around_def)
  from update_cell_in_grid[OF Cons.prems(1) pin c0]
  have upd: "update_cell (\<lambda>c. c\<lparr>surrounding_mines_count := ?k\<rparr>) g row col = Inr ?g1" .
  have r1: "rectangular ?g1" using Cons.prems(1) by (rule rectangular_with_entry)
  have u1: "unmarked ?g1" using Cons.prems(2) by (rule unmarked_with_entry) simp
  from sub have sub1: "set ps \<subseteq> grid_coordinates ?g1" by simp
  from Cons.IH[OF r1 u1 sub1] obtain g' where
    g': "set_surrounding_mine_count ?g1 ps = Inr g'" "rectangular g'" "unmarked g'"
      "same_attributes ?g1 g'"
    and cells': "\<forall>q \<in> grid_coordinates ?g1. \<exists>c. cell_at ?g1 (fst q) (snd q) = Inr c \<and>
       cell_at g' (fst q) (snd q) =
         Inr (if q \<in> set ps then c\<lparr>surrounding_mines_count := around ?g1 q\<rparr> else c)"
    by blast
  have "\<exists>c. cell_at g (fst q) (snd q) = Inr c \<and>
       cell_at g' (fst q) (snd q) =
         Inr (if q \<in> set (p # ps) then c\<lparr>surrounding_mines_count := around g q\<rparr> else c)"
    if q: "q \<in> grid_coordinates g" for q
  proof -
    obtain r c where rc: "q = (r, c)" by (cases q)
    from cell_at_in_grid[OF Cons.prems(1,2) q[unfolded rc]] obtain cq where
      cq: "cell_at g r c = Inr cq" by blast
    from cells' q rc obtain c1 where
      c1: "cell_at ?g1 r c = Inr c1"
        "cell_at g' r c = Inr (if q \<in> set ps then c1\<lparr>surrounding_mines_count := around ?g1 q\<rparr> else c1)"
      by auto
    have ar: "around ?g1 q = around g q" by (rule around_with_count[OF Cons.prems(1) pin c0])
    from cell_at_with_entry[OF Cons.prems(1) pin q[unfolded rc],
        of "Cell (c0\<lparr>surrounding_mines_count := ?k\<rparr>)"]
    have "cell_at ?g1 r c =
        (if (r, c) = (row, col) then Inr (c0\<lparr>surrounding_mines_count := ?k\<rparr>) else cell_at g r c)"
      by simp
    with c1 cq c0 rc p ar show ?thesis by (auto split: if_splits)
  qed
  with g' upd cnt p same_attributes_trans[OF same_attributes_with_entry g'(4)] show ?case by auto
qed

text \<open>
  The loop over the positions without a mine gives the same board in whatever order it takes
  them, so the order in which Python iterates over the set does not matter.
\<close>

lemma entry_in_grid:
  assumes "rectangular g" "unmarked g" "i < length (cells g)" "j < length (cells g ! i)"
  shows "(int i, int j) \<in> grid_coordinates g"
    and "cell_at g (int i) (int j) = Inr c \<Longrightarrow> cells g ! i ! j = Cell c"
proof -
  from assms(3) have mem: "cells g ! i \<in> set (cells g)" by simp
  with assms(1,4) have "int j < width g" by (auto simp: rectangular_def list_all_iff)
  moreover from assms(1,3) have "int i < height g" by (auto simp: rectangular_def)
  ultimately show pin: "(int i, int j) \<in> grid_coordinates g"
    by (simp add: grid_coordinates_def)
  assume "cell_at g (int i) (int j) = Inr c"
  with cell_at_in_grid[OF assms(1,2) pin] show "cells g ! i ! j = Cell c" by auto
qed

lemma grid_eqI:
  assumes r: "rectangular g1" "rectangular g2" and u: "unmarked g1" "unmarked g2"
    and a: "same_attributes g1 g2"
    and c: "\<forall>q \<in> grid_coordinates g1. cell_at g1 (fst q) (snd q) = cell_at g2 (fst q) (snd q)"
  shows "g1 = g2"
proof -
  from a have wh: "width g2 = width g1" "height g2 = height g1" by (auto simp: same_attributes_def)
  have G: "grid_coordinates g2 = grid_coordinates g1" using a by (rule same_attributes_grid)
  from r wh have len: "length (cells g1) = length (cells g2)" by (simp add: rectangular_def)
  have "cells g1 = cells g2"
  proof (rule nth_equalityI[OF len])
    fix i assume i: "i < length (cells g1)"
    with len have i2: "i < length (cells g2)" by simp
    from i r(1) have "int (length (cells g1 ! i)) = max 0 (width g1)"
      by (auto simp: rectangular_def list_all_iff)
    moreover from i2 r(2) wh have "int (length (cells g2 ! i)) = max 0 (width g1)"
      by (auto simp: rectangular_def list_all_iff)
    ultimately have l: "length (cells g1 ! i) = length (cells g2 ! i)" by simp
    show "cells g1 ! i = cells g2 ! i"
    proof (rule nth_equalityI[OF l])
      fix j assume j: "j < length (cells g1 ! i)"
      with l have j2: "j < length (cells g2 ! i)" by simp
      from entry_in_grid(1)[OF r(1) u(1) i j] have pin: "(int i, int j) \<in> grid_coordinates g1" .
      from cell_at_in_grid[OF r(1) u(1) pin] obtain cl where
        cl: "cell_at g1 (int i) (int j) = Inr cl" by blast
      with c pin have cl2: "cell_at g2 (int i) (int j) = Inr cl" by auto
      from entry_in_grid(2)[OF r(1) u(1) i j cl] entry_in_grid(2)[OF r(2) u(2) i2 j2 cl2]
      show "cells g1 ! i ! j = cells g2 ! i ! j" by simp
    qed
  qed
  with a show ?thesis by (simp add: same_attributes_def)
qed

lemma set_surrounding_mine_count_any_order:
  assumes "rectangular g" "unmarked g" "set ps \<subseteq> grid_coordinates g" "set ps' = set ps"
  shows "set_surrounding_mine_count g ps' = set_surrounding_mine_count g ps"
proof -
  from assms have sub': "set ps' \<subseteq> grid_coordinates g" by simp
  from set_surrounding_mine_count_result[OF assms(1,2,3)] obtain g1 where
    g1: "set_surrounding_mine_count g ps = Inr g1" "rectangular g1" "unmarked g1"
      "same_attributes g g1"
    and c1: "\<forall>q \<in> grid_coordinates g. \<exists>c. cell_at g (fst q) (snd q) = Inr c \<and>
       cell_at g1 (fst q) (snd q) =
         Inr (if q \<in> set ps then c\<lparr>surrounding_mines_count := around g q\<rparr> else c)" by blast
  from set_surrounding_mine_count_result[OF assms(1,2) sub'] obtain g2 where
    g2: "set_surrounding_mine_count g ps' = Inr g2" "rectangular g2" "unmarked g2"
      "same_attributes g g2"
    and c2: "\<forall>q \<in> grid_coordinates g. \<exists>c. cell_at g (fst q) (snd q) = Inr c \<and>
       cell_at g2 (fst q) (snd q) =
         Inr (if q \<in> set ps' then c\<lparr>surrounding_mines_count := around g q\<rparr> else c)" by blast
  have a: "same_attributes g1 g2" using g1(4) g2(4) by (simp add: same_attributes_def)
  have G1: "grid_coordinates g1 = grid_coordinates g" using g1(4) by (rule same_attributes_grid)
  have "\<forall>q \<in> grid_coordinates g1. cell_at g1 (fst q) (snd q) = cell_at g2 (fst q) (snd q)"
  proof
    fix q assume "q \<in> grid_coordinates g1"
    then have q: "q \<in> grid_coordinates g" by (simp add: G1)
    from c1 q obtain c where "cell_at g (fst q) (snd q) = Inr c"
      "cell_at g1 (fst q) (snd q) =
         Inr (if q \<in> set ps then c\<lparr>surrounding_mines_count := around g q\<rparr> else c)" by blast
    moreover from c2 q obtain c' where "cell_at g (fst q) (snd q) = Inr c'"
      "cell_at g2 (fst q) (snd q) =
         Inr (if q \<in> set ps' then c'\<lparr>surrounding_mines_count := around g q\<rparr> else c')" by blast
    ultimately show "cell_at g1 (fst q) (snd q) = cell_at g2 (fst q) (snd q)"
      using assms(4) by simp
  qed
  from grid_eqI[OF g1(2) g2(2) g1(3) g2(3) a this] g1(1) g2(1) show ?thesis by simp
qed

subsection \<open>The board that Grid_init returns\<close>

lemma block_product:
  "block_around r c = List.product (range_py (r - 1) (r + 2)) (range_py (c - 1) (c + 2))"
  by (simp add: block_around_def product_concat_map)

lemma distinct_block: "distinct (block_around r c)"
  by (simp add: block_product distinct_product distinct_range_py)

lemma set_block: "set (block_around r c) = {r - 1..<r + 2} \<times> {c - 1..<c + 2}"
  by (simp add: block_product set_range_py)

lemma block_count_adjacent:
  assumes "q \<notin> M"
  shows "int (length (filter (\<lambda>p. p \<in> G \<and> p \<in> M) (block_around (fst q) (snd q))))
    = int (card {p \<in> G. adjacent q p \<and> p \<in> M})"
proof -
  have "{p. p \<in> G \<and> p \<in> M} \<inter> set (block_around (fst q) (snd q))
      = {p \<in> G. adjacent q p \<and> p \<in> M}"
    using assms by (auto simp: set_block adjacent_def)
  then show ?thesis
    using distinct_length_filter[OF distinct_block, of "\<lambda>p. p \<in> G \<and> p \<in> M" "fst q" "snd q"]
    by simp
qed

lemma set_cell_mines_result:
  assumes rect: "rectangular g0" and unm: "unmarked g0"
    and empty: "\<forall>q \<in> grid_coordinates g0. cell_at g0 (fst q) (snd q) = Inr empty_cell"
    and k: "mine_count g0 = Some k" "0 \<le> k"
      "k \<le> int (length (generate_grid_coordinate_positions g0))"
  shows "\<exists>g'. set_cell_mines_and_surrounding_counts rs g0 = Inr g' \<and> rectangular g' \<and>
    unmarked g' \<and> same_attributes g0 g' \<and>
    (\<forall>q \<in> grid_coordinates g0. cell_at g' (fst q) (snd q) =
       Inr (built_cell (grid_coordinates g0)
              (set (draw rs (generate_grid_coordinate_positions g0) (nat k))) q))"
proof -
  let ?coords = "generate_grid_coordinate_positions g0"
  let ?mines = "draw rs ?coords (nat k)"
  let ?G = "grid_coordinates g0"
  from k have gen: "generate_mine_positions rs g0 ?coords = Inr ?mines"
    by (simp add: generate_mine_positions_def random_sample_def)
  have msub: "set ?mines \<subseteq> ?G" using set_draw[of rs ?coords "nat k"] by (simp add: set_positions)
  from place_mines_result[OF rect unm msub] obtain g1 where
    g1: "place_mines g0 ?mines = Inr g1" "rectangular g1" "unmarked g1" "same_attributes g0 g1"
    and c1: "\<forall>q \<in> ?G. \<exists>c. cell_at g0 (fst q) (snd q) = Inr c \<and>
       cell_at g1 (fst q) (snd q) = Inr (if q \<in> set ?mines then c\<lparr>has_mine := True\<rparr> else c)"
    by blast
  have G1: "grid_coordinates g1 = ?G" using g1(4) by (rule same_attributes_grid)
  let ?non = "identify_non_mine_positions ?coords ?mines"
  have nset: "set ?non = ?G - set ?mines"
    by (auto simp: identify_non_mine_positions_def set_positions)
  then have nsub: "set ?non \<subseteq> grid_coordinates g1" using G1 by auto
  from set_surrounding_mine_count_result[OF g1(2,3) nsub] obtain g2 where
    g2: "set_surrounding_mine_count g1 ?non = Inr g2" "rectangular g2" "unmarked g2"
      "same_attributes g1 g2"
    and c2: "\<forall>q \<in> ?G. \<exists>c. cell_at g1 (fst q) (snd q) = Inr c \<and>
       cell_at g2 (fst q) (snd q) =
         Inr (if q \<in> set ?non then c\<lparr>surrounding_mines_count := around g1 q\<rparr> else c)"
    unfolding G1 by blast
  have cell1: "cell_at g1 (fst q) (snd q) = Inr (empty_cell\<lparr>has_mine := (q \<in> set ?mines)\<rparr>)"
    if "q \<in> ?G" for q
    using c1 empty that by (auto simp: empty_cell_def)
  have mined1: "mined g1 q \<longleftrightarrow> q \<in> set ?mines" if "q \<in> ?G" for q
    using cell1[OF that] by (simp add: mined_def)
  have ar: "around g1 q = int (card {p \<in> ?G. adjacent q p \<and> p \<in> set ?mines})"
    if "q \<notin> set ?mines" for q
  proof -
    have "filter (\<lambda>p. p \<in> ?G \<and> mined g1 p) xs = filter (\<lambda>p. p \<in> ?G \<and> p \<in> set ?mines) xs" for xs
      by (rule filter_cong) (auto simp: mined1)
    then show ?thesis using block_count_adjacent[OF that, of ?G] by (simp add: around_def G1)
  qed
  have "cell_at g2 (fst q) (snd q) = Inr (built_cell ?G (set ?mines) q)" if q: "q \<in> ?G" for q
  proof (cases "q \<in> set ?mines")
    case True
    with q nset have "q \<notin> set ?non" by simp
    with c2 q cell1[OF q] True show ?thesis by (auto simp: built_cell_def empty_cell_def)
  next
    case False
    with q nset have "q \<in> set ?non" by simp
    with c2 q cell1[OF q] False ar[OF False] show ?thesis
      by (auto simp: built_cell_def empty_cell_def)
  qed
  with gen g1 g2 same_attributes_trans[OF g1(4) g2(4)] show ?thesis
    by (auto simp: set_cell_mines_and_surrounding_counts_def Let_def)
qed

lemma Grid_init_fresh:
  "Grid_init rs w h d =
     (case set_cell_mines_and_surrounding_counts rs (fresh_grid w h d) of
        Inl e \<Rightarrow> Inl e
      | Inr self' \<Rightarrow> Inr (self'\<lparr>hinted_cells := {}\<rparr>))"
  by (simp add: Grid_init_def fresh_grid_def tier_mine_count_def create_empty_cells_def Let_def)

lemma rectangular_fresh: "rectangular (fresh_grid w h d)"
  by (auto simp: rectangular_def fresh_grid_def length_range_py list_all_iff)

lemma unmarked_fresh: "unmarked (fresh_grid w h d)"
  by (auto simp: unmarked_def fresh_grid_def list_all_iff)

lemma cell_at_fresh:
  assumes "(r, c) \<in> grid_coordinates (fresh_grid w h d)"
  shows "cell_at (fresh_grid w h d) r c = Inr empty_cell"
proof -
  from assms have b: "0 \<le> r" "r < h" "0 \<le> c" "c < w"
    by (auto simp: grid_coordinates_def fresh_grid_def)
  then have "cells (fresh_grid w h d) ! nat r ! nat c = Cell empty_cell"
    by (simp add: fresh_grid_def length_range_py)
  with cell_at_entry[OF rectangular_fresh assms] show ?thesis by simp
qed

lemma fresh_fields [simp]:
  "width (fresh_grid w h d) = w" "height (fresh_grid w h d) = h"
  "difficulty (fresh_grid w h d) = d" "hinted_cells (fresh_grid w h d) = {}"
  "mine_count (fresh_grid w h d) = tier_mine_count d (w * h)"
  by (simp_all add: fresh_grid_def)

lemma length_positions_fresh:
  "int (length (generate_grid_coordinate_positions (fresh_grid w h d))) = max 0 h * max 0 w"
  by (simp add: length_positions nat_mult_distrib max_def) 

lemma Grid_init_built:
  assumes k: "tier_mine_count d (w * h) = Some k" "0 \<le> k" "k \<le> max 0 h * max 0 w"
  shows "\<exists>g. Grid_init rs w h d = Inr g \<and> rectangular g \<and> unmarked g \<and>
    width g = w \<and> height g = h \<and> difficulty g = d \<and> mine_count g = Some k \<and>
    hinted_cells g = {} \<and>
    (\<forall>q \<in> grid_coordinates g. cell_at g (fst q) (snd q) =
       Inr (built_cell (grid_coordinates g)
         (set (draw rs (generate_grid_coordinate_positions g) (nat k))) q))"
proof -
  let ?fresh = "fresh_grid w h d"
  have e: "\<forall>q \<in> grid_coordinates ?fresh. cell_at ?fresh (fst q) (snd q) = Inr empty_cell"
    using cell_at_fresh by auto
  from k have k': "mine_count ?fresh = Some k" "0 \<le> k"
    "k \<le> int (length (generate_grid_coordinate_positions ?fresh))"
    by (simp_all add: length_positions_fresh)
  from set_cell_mines_result[OF rectangular_fresh unmarked_fresh e k', of rs] obtain g' where
    g': "set_cell_mines_and_surrounding_counts rs ?fresh = Inr g'" "rectangular g'" "unmarked g'"
      "same_attributes ?fresh g'"
    and c: "\<forall>q \<in> grid_coordinates ?fresh. cell_at g' (fst q) (snd q) =
       Inr (built_cell (grid_coordinates ?fresh)
              (set (draw rs (generate_grid_coordinate_positions ?fresh) (nat k))) q)"
    by blast
  let ?g = "g'\<lparr>hinted_cells := {}\<rparr>"
  have eq: "?g = g'" using g'(4) by (simp add: same_attributes_def)
  have G: "grid_coordinates g' = grid_coordinates ?fresh" using g'(4) by (rule same_attributes_grid)
  have P: "generate_grid_coordinate_positions g' = generate_grid_coordinate_positions ?fresh"
    using g'(4) by (simp add: same_attributes_def generate_grid_coordinate_positions_def)
  from g'(1) have "Grid_init rs w h d = Inr g'" by (simp add: Grid_init_fresh eq)
  with g' c G P k(1) show ?thesis by (auto simp: same_attributes_def)
qed

lemma Grid_init_Inr:
  assumes "Grid_init rs w h d = Inr g"
  shows "\<exists>k. tier_mine_count d (w * h) = Some k \<and> 0 \<le> k \<and> k \<le> max 0 h * max 0 w"
proof (cases "tier_mine_count d (w * h)")
  case None
  with assms show ?thesis
    by (simp add: Grid_init_fresh set_cell_mines_and_surrounding_counts_def
        generate_mine_positions_def Let_def)
next
  case (Some k)
  show ?thesis
  proof (cases "0 \<le> k \<and> k \<le> max 0 h * max 0 w")
    case True
    with Some show ?thesis by simp
  next
    case False
    with Some assms show ?thesis
      by (auto simp: Grid_init_fresh set_cell_mines_and_surrounding_counts_def
        generate_mine_positions_def random_sample_def Let_def length_positions_fresh)
  qed
qed

lemma truncated_share_le:
  assumes "0 \<le> n" "p \<le> 100"
  shows "truncated_share n p \<le> n"
proof -
  from assms have "n * p \<le> n * 100" by (intro mult_left_mono) auto
  then have "(n * p) div 100 \<le> (n * 100) div 100" by (intro zdiv_mono1) auto
  with assms(1) show ?thesis by (simp add: truncated_share_def)
qed

lemma tier_in_range:
  assumes "2 \<le> w" "2 \<le> h" "d = 1 \<or> d = 2 \<or> d = 3"
  shows "\<exists>k. tier_mine_count d (w * h) = Some k \<and> 0 \<le> k \<and> k \<le> max 0 h * max 0 w"
proof -
  from assms(1,2) have "2 * 2 \<le> w * h" by (intro mult_mono) auto
  then have n: "4 \<le> w * h" by simp
  have m: "max 0 h * max 0 w = w * h" using assms by (simp add: max_def mult.commute)
  from n have "truncated_share (w * h) 10 \<le> w * h" "truncated_share (w * h) 15 \<le> w * h"
    "truncated_share (w * h) 20 \<le> w * h"
    by (simp_all add: truncated_share_le)
  with n m assms(3) show ?thesis by (auto simp: tier_mine_count_def)
qed

lemma floor_percent: "\<lfloor>real_of_int n * (real_of_int p / 100)\<rfloor> = (n * p) div 100"
proof -
  have "real_of_int n * (real_of_int p / 100) = real_of_int (n * p) / real_of_int 100" by simp
  then show ?thesis by (simp only: floor_divide_of_int_eq)
qed

lemma tier_documented:
  assumes "0 \<le> n" "d = 1 \<or> d = 2 \<or> d = 3"
  shows "tier_mine_count d n = Some (max \<lfloor>real_of_int n * tier_rate d\<rfloor> (tier_minimum d))"
proof -
  have "\<lfloor>real_of_int n * 0.10\<rfloor> = (n * 10) div 100" using floor_percent[of n 10] by simp
  moreover have "\<lfloor>real_of_int n * 0.15\<rfloor> = (n * 15) div 100" using floor_percent[of n 15] by simp
  moreover have "\<lfloor>real_of_int n * 0.20\<rfloor> = (n * 20) div 100" using floor_percent[of n 20] by simp
  ultimately show ?thesis using assms
    by (auto simp: tier_mine_count_def tier_rate_def tier_minimum_def truncated_share_def max.commute)
qed

lemma mined_built:
  assumes "cell_at g (fst q) (snd q) = Inr (built_cell G M q)"
  shows "mined g q \<longleftrightarrow> q \<in> M"
  using assms by (simp add: mined_def built_cell_def)

section \<open>The prompts and the game loop\<close>

lemma hints_in_append [simp]: "hints_in (xs @ ys) = hints_in xs @ hints_in ys"
  by (induction xs rule: hints_in.induct) auto

lemma get_valid_coordinate_prints:
  "get_valid_coordinate mx ins out = (r, ins', out') \<Longrightarrow>
     \<exists>new. out' = out @ new \<and> hints_in new = []"
proof (induction ins arbitrary: out)
  case Nil
  then show ?case by simp
next
  case (Cons l ins)
  have step: "\<exists>new. out' = out @ new \<and> hints_in new = []"
    if call: "get_valid_coordinate mx ins (out @ [m]) = (r, ins', out')"
      and quiet: "hints_in [m] = []" for m
  proof -
    from Cons.IH[OF call] obtain new where
      new: "out' = (out @ [m]) @ new" "hints_in new = []" by blast
    from new quiet have "out' = out @ (m # new) \<and> hints_in (m # new) = []"
      using hints_in_append[of "[m]" new] by simp
    then show ?thesis by blast
  qed
  show ?case
  proof (cases l)
    case (Line_int coordinate)
    show ?thesis
    proof (cases "0 \<le> coordinate \<and> coordinate \<le> mx")
      case True
      with Cons.prems Line_int show ?thesis by simp
    next
      case False
      with Cons.prems Line_int
      have "get_valid_coordinate mx ins (out @ [Out_of_range mx]) = (r, ins', out')" by simp
      then show ?thesis by (rule step) simp
    qed
  next
    case Line_play
    with Cons.prems
    have "get_valid_coordinate mx ins (out @ [Invalid_number]) = (r, ins', out')" by simp
    then show ?thesis by (rule step) simp
  next
    case Line_hint
    with Cons.prems
    have "get_valid_coordinate mx ins (out @ [Invalid_number]) = (r, ins', out')" by simp
    then show ?thesis by (rule step) simp
  next
    case Line_other
    with Cons.prems
    have "get_valid_coordinate mx ins (out @ [Invalid_number]) = (r, ins', out')" by simp
    then show ?thesis by (rule step) simp
  qed
qed

lemma get_valid_coordinate_range:
  "get_valid_coordinate mx ins out = (Inr c, ins', out') \<Longrightarrow> 0 \<le> c \<and> c \<le> mx"
  by (induction mx ins out rule: get_valid_coordinate.induct) (auto split: if_splits)

lemma get_valid_coordinate_more:
  "get_valid_coordinate mx ins out = (Inr c, ins', out') \<Longrightarrow>
     get_valid_coordinate mx (ins @ extra) out = (Inr c, ins' @ extra, out')"
  by (induction mx ins out rule: get_valid_coordinate.induct) (auto split: if_splits)

lemma get_user_guess_cases:
  assumes "get_user_guess g ins out = (r, ins', out')"
  obtains
    (eof_column) e ins1 out1 where
      "get_valid_coordinate (width g - 1) ins out = (Inl e, ins1, out1)"
      "r = Inl e" "ins' = ins1" "out' = out1"
  | (eof_row) column_index ins1 out1 e ins2 out2 where
      "get_valid_coordinate (width g - 1) ins out = (Inr column_index, ins1, out1)"
      "get_valid_coordinate (height g - 1) ins1 out1 = (Inl e, ins2, out2)"
      "r = Inl e" "ins' = ins2" "out' = out2"
  | (failed) column_index ins1 out1 row_index ins2 out2 e where
      "get_valid_coordinate (width g - 1) ins out = (Inr column_index, ins1, out1)"
      "get_valid_coordinate (height g - 1) ins1 out1 = (Inr row_index, ins2, out2)"
      "is_cell_open g row_index column_index = Inl e"
      "r = Inl e" "ins' = ins2" "out' = out2"
  | (opened) column_index ins1 out1 row_index ins2 out2 where
      "get_valid_coordinate (width g - 1) ins out = (Inr column_index, ins1, out1)"
      "get_valid_coordinate (height g - 1) ins1 out1 = (Inr row_index, ins2, out2)"
      "is_cell_open g row_index column_index = Inr True"
      "get_user_guess g ins2 (out2 @ [Already_opened]) = (r, ins', out')"
  | (accepted) column_index ins1 out1 row_index ins2 out2 where
      "get_valid_coordinate (width g - 1) ins out = (Inr column_index, ins1, out1)"
      "get_valid_coordinate (height g - 1) ins1 out1 = (Inr row_index, ins2, out2)"
      "is_cell_open g row_index column_index = Inr False"
      "r = Inr (row_index, column_index)" "ins' = ins2" "out' = out2"
proof -
  obtain r1 ins1 out1 where a: "get_valid_coordinate (width g - 1) ins out = (r1, ins1, out1)"
    by (cases "get_valid_coordinate (width g - 1) ins out") auto
  show ?thesis
  proof (cases r1)
    case (Inl e)
    with a assms eof_column show ?thesis by (simp add: get_user_guess.simps[of g ins out])
  next
    case (Inr column_index)
    obtain r2 ins2 out2 where
      b: "get_valid_coordinate (height g - 1) ins1 out1 = (r2, ins2, out2)"
      by (cases "get_valid_coordinate (height g - 1) ins1 out1") auto
    show ?thesis
    proof (cases r2)
      case (Inl e)
      with a b Inr assms eof_row show ?thesis by (simp add: get_user_guess.simps[of g ins out])
    next
      case r2: (Inr row_index)
      show ?thesis
      proof (cases "is_cell_open g row_index column_index")
        case (Inl e)
        with a b Inr r2 assms failed show ?thesis
          by (simp add: get_user_guess.simps[of g ins out])
      next
        case op: (Inr b')
        show ?thesis
        proof (cases b')
          case True
          with a b Inr r2 op assms opened show ?thesis
            by (simp add: get_user_guess.simps[of g ins out])
        next
          case False
          with a b Inr r2 op assms accepted show ?thesis
            by (simp add: get_user_guess.simps[of g ins out])
        qed
      qed
    qed
  qed
qed

lemma get_user_guess_prints:
  "get_user_guess g ins out = (r, ins', out') \<Longrightarrow> \<exists>new. out' = out @ new \<and> hints_in new = []"
proof (induction "length ins" arbitrary: ins out rule: less_induct)
  case less
  from less.prems show ?case
  proof (cases rule: get_user_guess_cases)
    case (eof_column e ins1 out1)
    with get_valid_coordinate_prints[OF eof_column(1)] show ?thesis by simp
  next
    case (eof_row column_index ins1 out1 e ins2 out2)
    from get_valid_coordinate_prints[OF eof_row(1)] get_valid_coordinate_prints[OF eof_row(2)]
    obtain n1 n2 where "out2 = out @ (n1 @ n2)" "hints_in (n1 @ n2) = []" by auto
    with eof_row show ?thesis by blast
  next
    case (failed column_index ins1 out1 row_index ins2 out2 e)
    from get_valid_coordinate_prints[OF failed(1)] get_valid_coordinate_prints[OF failed(2)]
    obtain n1 n2 where "out2 = out @ (n1 @ n2)" "hints_in (n1 @ n2) = []" by auto
    with failed show ?thesis by blast
  next
    case (opened column_index ins1 out1 row_index ins2 out2)
    from get_valid_coordinate_prints[OF opened(1)] get_valid_coordinate_prints[OF opened(2)]
    obtain n1 n2 where n: "out2 = out @ (n1 @ n2)" "hints_in (n1 @ n2) = []" by auto
    from get_valid_coordinate_consumes[OF opened(1)] get_valid_coordinate_consumes[OF opened(2)]
    have "length ins2 < length ins" by simp
    from less.hyps[OF this opened(4)] obtain n3 where
      "out' = (out2 @ [Already_opened]) @ n3" "hints_in n3 = []" by blast
    with n have "out' = out @ (n1 @ n2 @ Already_opened # n3)"
      "hints_in (n1 @ n2 @ Already_opened # n3) = []" by auto
    then show ?thesis by blast
  next
    case (accepted column_index ins1 out1 row_index ins2 out2)
    from get_valid_coordinate_prints[OF accepted(1)] get_valid_coordinate_prints[OF accepted(2)]
    obtain n1 n2 where "out2 = out @ (n1 @ n2)" "hints_in (n1 @ n2) = []" by auto
    with accepted show ?thesis by blast
  qed
qed

lemma get_user_guess_accepts:
  "get_user_guess g ins out = (Inr (row, col), ins', out') \<Longrightarrow>
     is_valid_position g row col \<and> is_cell_open g row col = Inr False"
proof (induction "length ins" arbitrary: ins out rule: less_induct)
  case less
  from less.prems show ?case
  proof (cases rule: get_user_guess_cases)
    case (opened column_index ins1 out1 row_index ins2 out2)
    from get_valid_coordinate_consumes[OF opened(1)] get_valid_coordinate_consumes[OF opened(2)]
    have "length ins2 < length ins" by simp
    from less.hyps[OF this opened(4)] show ?thesis .
  next
    case (accepted column_index ins1 out1 row_index ins2 out2)
    with get_valid_coordinate_range[OF accepted(1)] get_valid_coordinate_range[OF accepted(2)]
    show ?thesis by (auto simp: is_valid_position_def)
  qed auto
qed

lemma get_user_guess_more:
  "get_user_guess g ins out = (Inr p, ins', out') \<Longrightarrow>
     get_user_guess g (ins @ extra) out = (Inr p, ins' @ extra, out')"
proof (induction "length ins" arbitrary: ins out rule: less_induct)
  case less
  from less.prems show ?case
  proof (cases rule: get_user_guess_cases)
    case (opened column_index ins1 out1 row_index ins2 out2)
    from get_valid_coordinate_consumes[OF opened(1)] get_valid_coordinate_consumes[OF opened(2)]
    have "length ins2 < length ins" by simp
    from less.hyps[OF this opened(4)]
    have "get_user_guess g (ins2 @ extra) (out2 @ [Already_opened]) = (Inr p, ins' @ extra, out')" .
    with get_valid_coordinate_more[OF opened(1), of extra]
      get_valid_coordinate_more[OF opened(2), of extra] opened(3)
    show ?thesis by (simp add: get_user_guess.simps[of g "ins @ extra" out])
  next
    case (accepted column_index ins1 out1 row_index ins2 out2)
    with get_valid_coordinate_more[OF accepted(1), of extra]
      get_valid_coordinate_more[OF accepted(2), of extra]
    show ?thesis by (simp add: get_user_guess.simps[of g "ins @ extra" out])
  qed auto
qed

lemma play_cases:
  assumes "play g ins out = res"
  obtains
    (scan_failed) e where "has_unopened_non_mines g = Inl e" "res = (Raised e, g, ins, out)"
  | (won) "has_unopened_non_mines g = Inr False" "res = (Won, g, ins, out @ [Congratulations])"
  | (eof) "has_unopened_non_mines g = Inr True" "ins = []" "res = (Raised EOFError, g, [], out)"
  | (guess_failed) ins1 e ins2 out2 where
      "has_unopened_non_mines g = Inr True" "ins = Line_play # ins1"
      "get_user_guess g ins1 out = (Inl e, ins2, out2)" "res = (Raised e, g, ins2, out2)"
  | (mine_failed) ins1 p ins2 out2 e g' out3 where
      "has_unopened_non_mines g = Inr True" "ins = Line_play # ins1"
      "get_user_guess g ins1 out = (Inr p, ins2, out2)"
      "has_guessed_mine g p out2 = (Inl e, g', out3)" "res = (Raised e, g', ins2, out3)"
  | (lost) ins1 p ins2 out2 g' out3 where
      "has_unopened_non_mines g = Inr True" "ins = Line_play # ins1"
      "get_user_guess g ins1 out = (Inr p, ins2, out2)"
      "has_guessed_mine g p out2 = (Inr True, g', out3)"
      "res = (Lost, g', ins2, out3 @ [Game_over])"
  | (open_failed) ins1 p ins2 out2 g' out3 e where
      "has_unopened_non_mines g = Inr True" "ins = Line_play # ins1"
      "get_user_guess g ins1 out = (Inr p, ins2, out2)"
      "has_guessed_mine g p out2 = (Inr False, g', out3)"
      "open_cell g' p = Inl e" "res = (Raised e, g', ins2, out3)"
  | (opened) ins1 p ins2 out2 g' out3 g'' where
      "has_unopened_non_mines g = Inr True" "ins = Line_play # ins1"
      "get_user_guess g ins1 out = (Inr p, ins2, out2)"
      "has_guessed_mine g p out2 = (Inr False, g', out3)"
      "open_cell g' p = Inr g''" "play g'' ins2 out3 = res"
  | (hint_failed) ins1 e g' out1 where
      "has_unopened_non_mines g = Inr True" "ins = Line_hint # ins1"
      "request_hint g out = (Inl e, g', out1)" "res = (Raised e, g', ins1, out1)"
  | (hinted) ins1 g' out1 where
      "has_unopened_non_mines g = Inr True" "ins = Line_hint # ins1"
      "request_hint g out = (Inr (), g', out1)" "play g' ins1 out1 = res"
  | (invalid) l ins1 where
      "has_unopened_non_mines g = Inr True" "ins = l # ins1" "l \<noteq> Line_play" "l \<noteq> Line_hint"
      "play g ins1 (out @ [Invalid_option]) = res"
proof -
  note unfolded = assms[unfolded play.simps[of g ins out]]
  show ?thesis
  proof (cases "has_unopened_non_mines g")
  case (Inl e)
  with unfolded scan_failed show ?thesis by simp
next
  case (Inr b)
  show ?thesis
  proof (cases b)
    case False
    with Inr unfolded won show ?thesis by simp
  next
    case True
    with Inr have t: "has_unopened_non_mines g = Inr True" by simp
    show ?thesis
    proof (cases ins)
      case Nil
      with t unfolded eof show ?thesis by simp
    next
      case (Cons l ins1)
      show ?thesis
      proof (cases "l = Line_play")
        case lp: True
        obtain r ins2 out2 where gu: "get_user_guess g ins1 out = (r, ins2, out2)"
          by (cases "get_user_guess g ins1 out") auto
        show ?thesis
        proof (cases r)
          case (Inl e)
          with t Cons lp gu unfolded guess_failed show ?thesis
            by simp
        next
          case p: (Inr p)
          obtain m g' out3 where hm: "has_guessed_mine g p out2 = (m, g', out3)"
            by (cases "has_guessed_mine g p out2") auto
          show ?thesis
          proof (cases m)
            case (Inl e)
            with t Cons lp gu p hm unfolded mine_failed show ?thesis
              by simp
          next
            case mb: (Inr mb)
            show ?thesis
            proof (cases mb)
              case True
              with t Cons lp gu p hm mb unfolded lost show ?thesis
                by simp
            next
              case False
              show ?thesis
              proof (cases "open_cell g' p")
                case (Inl e)
                with t Cons lp gu p hm mb False unfolded open_failed show ?thesis
                  by simp
              next
                case (Inr g'')
                with t Cons lp gu p hm mb False unfolded opened show ?thesis
                  by simp
              qed
            qed
          qed
        qed
      next
        case nlp: False
        show ?thesis
        proof (cases "l = Line_hint")
          case lh: True
          obtain r g' out1 where rh: "request_hint g out = (r, g', out1)"
            by (cases "request_hint g out") auto
          show ?thesis
          proof (cases r)
            case (Inl e)
            with t Cons lh rh unfolded hint_failed show ?thesis
              by simp
          next
            case (Inr u)
            with t Cons lh rh unfolded hinted show ?thesis
              by simp
          qed
        next
          case False
          with nlp t Cons unfolded invalid[of l ins1] show ?thesis
            by (cases l) simp_all
        qed
      qed
    qed
  qed
qed
qed

lemma update_cell_hinted:
  "update_cell f g row col = Inr g' \<Longrightarrow> hinted_cells g' = hinted_cells g"
  by (auto simp: update_cell_def split: sum.splits slot.splits)

lemma store_marker_hinted:
  "store_marker g row col = Inr g' \<Longrightarrow> hinted_cells g' = hinted_cells g"
  by (auto simp: store_marker_def split: sum.splits)

lemma has_guessed_mine_effect:
  assumes "has_guessed_mine g p out = (r, g', out')"
  shows "hinted_cells g' = hinted_cells g" "\<exists>new. out' = out @ new \<and> hints_in new = []"
proof -
  show "hinted_cells g' = hinted_cells g"
    using assms store_marker_hinted[of g "fst p" "snd p"]
    by (auto simp: has_guessed_mine_def split: sum.splits bool.splits)
  have "out' = out \<or> out' = out @ [Guessed_mine]"
    using assms by (auto simp: has_guessed_mine_def split: sum.splits bool.splits)
  then have "out' = out @ [] \<and> hints_in [] = [] \<or>
      out' = out @ [Guessed_mine] \<and> hints_in [Guessed_mine] = []" by auto
  then show "\<exists>new. out' = out @ new \<and> hints_in new = []" by blast
qed

lemma hint_some:
  assumes "hint g = Inr (Some p, g')"
  shows "fully_safe g p" "p \<in> grid_coordinates g"
    "g' = g\<lparr>hinted_cells := insert p (hinted_cells g)\<rparr>"
  using hint_scan_some[of g "scan_order g" p g'] assms by (auto simp: hint_def set_scan_order)

lemma hint_none: "hint g = Inr (None, g') \<Longrightarrow> g' = g"
  using hint_scan_none[of g "scan_order g" g'] by (simp add: hint_def)

lemma request_hint_effect:
  assumes "request_hint g out = (r, g', out')"
  shows "\<exists>new. out' = out @ new \<and> distinct (hints_in new) \<and>
    set (hints_in new) \<inter> hinted_cells g = {} \<and>
    hinted_cells g' = hinted_cells g \<union> set (hints_in new)"
proof (cases "hint g")
  case (Inl e)
  with assms have "out' = out @ []" "g' = g" by (auto simp: request_hint_def)
  then show ?thesis by auto
next
  case (Inr rg)
  obtain res g1 where rg: "rg = (res, g1)" by (cases rg)
  show ?thesis
  proof (cases res)
    case None
    with Inr rg assms hint_none[of g g1] have "out' = out @ [No_safe_cells]" "g' = g"
      by (auto simp: request_hint_def)
    then have "out' = out @ [No_safe_cells] \<and> distinct (hints_in [No_safe_cells]) \<and>
      set (hints_in [No_safe_cells]) \<inter> hinted_cells g = {} \<and>
      hinted_cells g' = hinted_cells g \<union> set (hints_in [No_safe_cells])" by simp
    then show ?thesis by blast
  next
    case (Some p)
    with Inr rg have h: "hint g = Inr (Some p, g1)" by simp
    from hint_some[OF h] have "p \<notin> hinted_cells g" "hinted_cells g1 = insert p (hinted_cells g)"
      by (auto simp: fully_safe_def)
    moreover from h assms have "out' = out @ [Hint_at p]" "g' = g1"
      by (auto simp: request_hint_def)
    ultimately have "out' = out @ [Hint_at p] \<and> distinct (hints_in [Hint_at p]) \<and>
      set (hints_in [Hint_at p]) \<inter> hinted_cells g = {} \<and>
      hinted_cells g' = hinted_cells g \<union> set (hints_in [Hint_at p])" by simp
    then show ?thesis by blast
  qed
qed

lemma play_hints:
  "play g ins out = (st, g', ins', out') \<Longrightarrow>
     \<exists>new. out' = out @ new \<and> distinct (hints_in new) \<and>
       set (hints_in new) \<inter> hinted_cells g = {} \<and>
       hinted_cells g' = hinted_cells g \<union> set (hints_in new)"
proof (induction "length ins" arbitrary: g ins out rule: less_induct)
  case less
  let ?P = "\<lambda>g out new. out' = out @ new \<and> distinct (hints_in new) \<and>
       set (hints_in new) \<inter> hinted_cells g = {} \<and>
       hinted_cells g' = hinted_cells g \<union> set (hints_in new)"
  from less.prems show ?case
  proof (cases rule: play_cases)
    case (scan_failed e)
    then have "?P g out []" by simp
    then show ?thesis by blast
  next
    case won
    then have "?P g out [Congratulations]" by simp
    then show ?thesis by blast
  next
    case eof
    then have "?P g out []" by simp
    then show ?thesis by blast
  next
    case (guess_failed ins1 e ins2 out2)
    from get_user_guess_prints[OF guess_failed(3)] obtain n where
      "out2 = out @ n" "hints_in n = []" by blast
    with guess_failed have "?P g out n" by simp
    then show ?thesis by blast
  next
    case (mine_failed ins1 p ins2 out2 e g1 out3)
    from get_user_guess_prints[OF mine_failed(3)] obtain n where
      n: "out2 = out @ n" "hints_in n = []" by blast
    from has_guessed_mine_effect[OF mine_failed(4)] obtain n2 where
      n2: "hinted_cells g1 = hinted_cells g" "out3 = out2 @ n2" "hints_in n2 = []" by blast
    with n mine_failed have "?P g out (n @ n2)" by simp
    then show ?thesis by blast
  next
    case (lost ins1 p ins2 out2 g1 out3)
    from get_user_guess_prints[OF lost(3)] obtain n where
      n: "out2 = out @ n" "hints_in n = []" by blast
    from has_guessed_mine_effect[OF lost(4)] obtain n2 where
      n2: "hinted_cells g1 = hinted_cells g" "out3 = out2 @ n2" "hints_in n2 = []" by blast
    with n lost have "?P g out (n @ n2 @ [Game_over])" by simp
    then show ?thesis by blast
  next
    case (open_failed ins1 p ins2 out2 g1 out3 e)
    from get_user_guess_prints[OF open_failed(3)] obtain n where
      n: "out2 = out @ n" "hints_in n = []" by blast
    from has_guessed_mine_effect[OF open_failed(4)] obtain n2 where
      n2: "hinted_cells g1 = hinted_cells g" "out3 = out2 @ n2" "hints_in n2 = []" by blast
    with n open_failed have "?P g out (n @ n2)" by simp
    then show ?thesis by blast
  next
    case (opened ins1 p ins2 out2 g1 out3 g2)
    from get_user_guess_prints[OF opened(3)] obtain n where
      n: "out2 = out @ n" "hints_in n = []" by blast
    from has_guessed_mine_effect[OF opened(4)] obtain n2 where
      n2: "hinted_cells g1 = hinted_cells g" "out3 = out2 @ n2" "hints_in n2 = []" by blast
    from opened(5) have h2: "hinted_cells g2 = hinted_cells g1"
      by (auto simp: open_cell_def dest: update_cell_hinted)
    from get_user_guess_unread[OF opened(3)] opened(2) have "length ins2 < length ins" by simp
    from less.hyps[OF this opened(6)] obtain n3 where "?P g2 out3 n3" by blast
    with n n2 h2 have "?P g out (n @ n2 @ n3)" by simp
    then show ?thesis by blast
  next
    case (hint_failed ins1 e g1 out1)
    from request_hint_effect[OF hint_failed(3)] obtain n where
      "out1 = out @ n" "distinct (hints_in n)" "set (hints_in n) \<inter> hinted_cells g = {}"
      "hinted_cells g1 = hinted_cells g \<union> set (hints_in n)" by blast
    with hint_failed have "?P g out n" by simp
    then show ?thesis by blast
  next
    case (hinted ins1 g1 out1)
    from request_hint_effect[OF hinted(3)] obtain n where
      n: "out1 = out @ n" "distinct (hints_in n)" "set (hints_in n) \<inter> hinted_cells g = {}"
      "hinted_cells g1 = hinted_cells g \<union> set (hints_in n)" by blast
    from hinted(2) have "length ins1 < length ins" by simp
    from less.hyps[OF this hinted(4)] obtain n3 where n3: "?P g1 out1 n3" by blast
    with n have "?P g out (n @ n3)" by auto
    then show ?thesis by blast
  next
    case (invalid l ins1)
    from invalid(2) have "length ins1 < length ins" by simp
    from less.hyps[OF this invalid(5)] obtain n3 where "?P g (out @ [Invalid_option]) n3" by blast
    then have "?P g out (Invalid_option # n3)" by simp
    then show ?thesis by blast
  qed
qed

lemma play_same_guess:
  assumes "has_unopened_non_mines g = Inr True"
    and "get_user_guess g ins1 out1 = get_user_guess g ins2 out2"
  shows "play g (Line_play # ins1) out1 = play g (Line_play # ins2) out2"
  using assms by (simp add: play.simps[of g "Line_play # ins1"] play.simps[of g "Line_play # ins2"])

lemma guess_column_rejected:
  assumes "\<not> (0 \<le> x \<and> x < width g)"
  shows "get_user_guess g (Line_int x # rest) out =
    get_user_guess g rest (out @ [Out_of_range (width g - 1)])"
proof -
  from assms have "get_valid_coordinate (width g - 1) (Line_int x # rest) out =
      get_valid_coordinate (width g - 1) rest (out @ [Out_of_range (width g - 1)])" by auto
  then show ?thesis
    unfolding get_user_guess.simps[of g "Line_int x # rest"] get_user_guess.simps[of g rest]
    by (simp only:)
qed

lemma guess_row_rejected:
  assumes "0 \<le> col \<and> col < width g" "\<not> (0 \<le> y \<and> y < height g)"
  shows "get_user_guess g (Line_int col # Line_int y # rest) out =
    get_user_guess g (Line_int col # rest) (out @ [Out_of_range (height g - 1)])"
proof -
  from assms(1) have a: "get_valid_coordinate (width g - 1) (Line_int col # ins) out' =
      (Inr col, ins, out')" for ins out' by auto
  from assms(2) have b: "get_valid_coordinate (height g - 1) (Line_int y # rest) out =
      get_valid_coordinate (height g - 1) rest (out @ [Out_of_range (height g - 1)])" by auto
  show ?thesis
    unfolding get_user_guess.simps[of g "Line_int col # Line_int y # rest"]
      get_user_guess.simps[of g "Line_int col # rest"]
    by (simp only: a b prod.case sum.case)
qed

lemma guess_opened_rejected:
  assumes "0 \<le> col \<and> col < width g" "0 \<le> row \<and> row < height g"
    "is_cell_open g row col = Inr True"
  shows "get_user_guess g (Line_int col # Line_int row # rest) out =
    get_user_guess g rest (out @ [Already_opened])"
proof -
  from assms have "0 \<le> col \<and> col \<le> width g - 1" "0 \<le> row \<and> row \<le> height g - 1" by auto
  with assms(3) show ?thesis
    by (simp add: get_user_guess.simps[of g "Line_int col # Line_int row # rest"])
qed

lemma guess_accepted:
  assumes "0 \<le> col \<and> col < width g" "0 \<le> row \<and> row < height g"
    "is_cell_open g row col = Inr False"
  shows "get_user_guess g (Line_int col # Line_int row # rest) out = (Inr (row, col), rest, out)"
proof -
  from assms have "0 \<le> col \<and> col \<le> width g - 1" "0 \<le> row \<and> row \<le> height g - 1" by auto
  with assms(3) show ?thesis
    by (simp add: get_user_guess.simps[of g "Line_int col # Line_int row # rest"])
qed

lemma play_safe_guess:
  assumes "rectangular g" "has_unopened_non_mines g = Inr True"
    and "(row, col) \<in> grid_coordinates g" and "cell_at g row col = Inr c"
    and "\<not> is_open c" and "\<not> has_mine c"
  shows "play g (Line_play # Line_int col # Line_int row # rest) out =
    play (with_entry g row col (Cell (c\<lparr>is_open := True\<rparr>))) rest out"
proof -
  from assms(3) have b: "0 \<le> col \<and> col < width g" "0 \<le> row \<and> row < height g"
    by (auto simp: grid_coordinates_def)
  from assms(4,5) have "is_cell_open g row col = Inr False" by (simp add: is_cell_open_def)
  from guess_accepted[OF b this]
  have gu: "get_user_guess g (Line_int col # Line_int row # rest) out = (Inr (row, col), rest, out)" .
  from assms(4,6) have hm: "has_guessed_mine g (row, col) out = (Inr False, g, out)"
    by (simp add: has_guessed_mine_def grid_has_mine_def)
  from update_cell_in_grid[OF assms(1,3,4)]
  have op: "open_cell g (row, col) = Inr (with_entry g row col (Cell (c\<lparr>is_open := True\<rparr>)))"
    by (simp add: open_cell_def)
  from assms(2) gu hm op show ?thesis
    by (simp add: play.simps[of g "Line_play # Line_int col # Line_int row # rest"])
qed

lemma play_mine_guess:
  assumes "rectangular g" "has_unopened_non_mines g = Inr True"
    and "(row, col) \<in> grid_coordinates g" and "cell_at g row col = Inr c"
    and "\<not> is_open c" and "has_mine c"
  shows "play g (Line_play # Line_int col # Line_int row # rest) out =
    (Lost, with_entry g row col Marker_X, rest, out @ [Guessed_mine, Game_over])"
proof -
  from assms(3) have b: "0 \<le> col \<and> col < width g" "0 \<le> row \<and> row < height g"
    by (auto simp: grid_coordinates_def)
  from assms(4,5) have "is_cell_open g row col = Inr False" by (simp add: is_cell_open_def)
  from guess_accepted[OF b this]
  have gu: "get_user_guess g (Line_int col # Line_int row # rest) out = (Inr (row, col), rest, out)" .
  from assms(4,6) store_marker_in_grid[OF assms(1,3)]
  have hm: "has_guessed_mine g (row, col) out =
      (Inr True, with_entry g row col Marker_X, out @ [Guessed_mine])"
    by (simp add: has_guessed_mine_def grid_has_mine_def)
  from assms(2) gu hm show ?thesis
    by (simp add: play.simps[of g "Line_play # Line_int col # Line_int row # rest"])
qed

lemma play_won: "has_unopened_non_mines g = Inr False \<Longrightarrow>
    play g ins out = (Won, g, ins, out @ [Congratulations])"
  by (simp add: play.simps[of g ins out])

lemma play_finished:
  "play g ins out = (st, g', ins', out') \<Longrightarrow> st = Won \<or> st = Lost \<Longrightarrow>
     play g (ins @ extra) out = (st, g', ins' @ extra, out') \<and>
     (st = Won \<longrightarrow> has_unopened_non_mines g' = Inr False) \<and>
     (st = Lost \<longrightarrow> (\<exists>before. out' = before @ [Guessed_mine, Game_over]))"
proof (induction "length ins" arbitrary: g ins out rule: less_induct)
  case less
  from less.prems(1) show ?case
  proof (cases rule: play_cases)
    case (scan_failed e)
    with less.prems(2) show ?thesis by simp
  next
    case won
    then show ?thesis by (simp add: play_won)
  next
    case eof
    with less.prems(2) show ?thesis by simp
  next
    case (guess_failed ins1 e ins2 out2)
    with less.prems(2) show ?thesis by simp
  next
    case (mine_failed ins1 p ins2 out2 e g1 out3)
    with less.prems(2) show ?thesis by simp
  next
    case (lost ins1 p ins2 out2 g1 out3)
    from lost(4) have o3: "out3 = out2 @ [Guessed_mine]"
      by (auto simp: has_guessed_mine_def split: sum.splits bool.splits)
    from get_user_guess_more[OF lost(3), of extra] lost o3 show ?thesis
      by (simp add: play.simps[of g "Line_play # ins1 @ extra" out])
  next
    case (open_failed ins1 p ins2 out2 g1 out3 e)
    with less.prems(2) show ?thesis by simp
  next
    case (opened ins1 p ins2 out2 g1 out3 g2)
    from get_user_guess_unread[OF opened(3)] opened(2) have "length ins2 < length ins" by simp
    from less.hyps[OF this opened(6) less.prems(2)]
      get_user_guess_more[OF opened(3), of extra] opened
    show ?thesis by (simp add: play.simps[of g "Line_play # ins1 @ extra" out])
  next
    case (hint_failed ins1 e g1 out1)
    with less.prems(2) show ?thesis by simp
  next
    case (hinted ins1 g1 out1)
    from hinted(2) have "length ins1 < length ins" by simp
    from less.hyps[OF this hinted(4) less.prems(2)] hinted
    show ?thesis by (simp add: play.simps[of g "Line_hint # ins1 @ extra" out])
  next
    case (invalid l ins1)
    from invalid(2) have "length ins1 < length ins" by simp
    from less.hyps[OF this invalid(5) less.prems(2)] invalid
    show ?thesis by (cases l) (simp_all add: play.simps[of g _ out])
  qed
qed

text \<open>
  A game keeps its board rectangular, and unmarked until it is lost: every board on which
  \<open>play\<close> asks for a hint or a guess is of the declared type.
\<close>

lemma hint_keeps_cells:
  assumes "hint g = Inr (res, g')"
  shows "cells g' = cells g" "width g' = width g" "height g' = height g"
proof -
  have "g' = g \<or> (\<exists>p. g' = g\<lparr>hinted_cells := insert p (hinted_cells g)\<rparr>)"
  proof (cases res)
    case None
    with assms hint_none[of g g'] show ?thesis by simp
  next
    case (Some p)
    with assms hint_some(3)[of g p g'] show ?thesis by blast
  qed
  then show "cells g' = cells g" "width g' = width g" "height g' = height g" by auto
qed

lemma typed_same_cells:
  assumes "cells g' = cells g" "width g' = width g" "height g' = height g"
  shows "rectangular g' = rectangular g" "unmarked g' = unmarked g"
  using assms by (simp_all add: rectangular_def unmarked_def)

lemma play_keeps_board_typed:
  "play g ins out = (st, g', ins', out') \<Longrightarrow> rectangular g \<Longrightarrow> unmarked g \<Longrightarrow>
     rectangular g' \<and> (st \<noteq> Lost \<longrightarrow> unmarked g')"
proof (induction "length ins" arbitrary: g ins out rule: less_induct)
  case less
  note r = less.prems(2) and u = less.prems(3)
  from less.prems(1) show ?case
  proof (cases rule: play_cases)
    case (scan_failed e)
    with r u show ?thesis by simp
  next
    case won
    with r u show ?thesis by simp
  next
    case eof
    with r u show ?thesis by simp
  next
    case (guess_failed ins1 e ins2 out2)
    with r u show ?thesis by simp
  next
    case (mine_failed ins1 p ins2 out2 e g1 out3)
    then have "g1 = g" by (auto simp: has_guessed_mine_def split: sum.splits bool.splits)
    with mine_failed r u show ?thesis by simp
  next
    case (lost ins1 p ins2 out2 g1 out3)
    obtain row col where p: "p = (row, col)" by (cases p)
    from get_user_guess_accepts[OF lost(3)[unfolded p]]
    have pin: "(row, col) \<in> grid_coordinates g"
      by (auto simp: is_valid_position_def grid_coordinates_def)
    from lost(4) p store_marker_in_grid[OF r pin] have "g1 = with_entry g row col Marker_X"
      by (auto simp: has_guessed_mine_def split: sum.splits bool.splits)
    with lost r show ?thesis by (simp add: rectangular_with_entry)
  next
    case (open_failed ins1 p ins2 out2 g1 out3 e)
    then have "g1 = g" by (auto simp: has_guessed_mine_def split: sum.splits bool.splits)
    with open_failed r u show ?thesis by simp
  next
    case (opened ins1 p ins2 out2 g1 out3 g2)
    obtain row col where p: "p = (row, col)" by (cases p)
    from opened(4) have g1: "g1 = g" by (auto simp: has_guessed_mine_def split: sum.splits bool.splits)
    from get_user_guess_accepts[OF opened(3)[unfolded p]]
    have pin: "(row, col) \<in> grid_coordinates g"
      by (auto simp: is_valid_position_def grid_coordinates_def)
    from cell_at_in_grid[OF r u pin] obtain c where c: "cell_at g row col = Inr c" by blast
    from update_cell_in_grid[OF r pin c] opened(5) g1 p
    have g2: "g2 = with_entry g row col (Cell (c\<lparr>is_open := True\<rparr>))" by (simp add: open_cell_def)
    have r2: "rectangular g2" unfolding g2 using r by (rule rectangular_with_entry)
    have u2: "unmarked g2" unfolding g2 using u by (rule unmarked_with_entry) simp
    from get_user_guess_unread[OF opened(3)] opened(2) have "length ins2 < length ins" by simp
    from less.hyps[OF this opened(6) r2 u2] show ?thesis .
  next
    case (hint_failed ins1 e g1 out1)
    then have "g1 = g" by (auto simp: request_hint_def split: sum.splits option.splits)
    with hint_failed r u show ?thesis by simp
  next
    case (hinted ins1 g1 out1)
    from hinted(3) obtain res where "hint g = Inr (res, g1)"
      by (auto simp: request_hint_def split: sum.splits option.splits)
    from typed_same_cells[OF hint_keeps_cells[OF this]] r u
    have r1: "rectangular g1" and u1: "unmarked g1" by auto
    from hinted(2) have "length ins1 < length ins" by simp
    from less.hyps[OF this hinted(4) r1 u1] show ?thesis .
  next
    case (invalid l ins1)
    from invalid(2) have "length ins1 < length ins" by simp
    from less.hyps[OF this invalid(5) r u] show ?thesis .
  qed
qed

section \<open>The claims\<close>

text \<open>
  Claim C1.  A coordinate returned by \<open>hint\<close> was returned by no earlier call on the same
  board: it is not in \<open>hinted_cells\<close> when the call starts and is added to it by the call.
  Its cell is unopened, has no mine and has \<open>surrounding_mines_count = 0\<close>, and the call
  changes nothing else.  Hence a later call, on any board whose \<open>hinted_cells\<close> contains the
  set the first call left, returns another coordinate; and the hints printed during one run of
  \<open>play\<close> are pairwise distinct and none of them was hinted before the run.
\<close>

theorem hint_returns_fresh_fully_safe_cell:
  "(hint g = Inr (Some p, g') \<longrightarrow>
      p \<notin> hinted_cells g \<and> p \<in> grid_coordinates g \<and>
      (\<exists>c. cell_at g (fst p) (snd p) = Inr c \<and> \<not> is_open c \<and> \<not> has_mine c \<and>
           surrounding_mines_count c = 0) \<and>
      g' = g\<lparr>hinted_cells := insert p (hinted_cells g)\<rparr>) \<and>
   (hint g = Inr (Some p, g') \<and> hinted_cells g' \<subseteq> hinted_cells g2 \<and>
      hint g2 = Inr (Some q, g3) \<longrightarrow> q \<noteq> p) \<and>
   (play g ins out = (st, g4, ins', out') \<longrightarrow>
      (\<exists>new. out' = out @ new \<and> distinct (hints_in new) \<and>
         set (hints_in new) \<inter> hinted_cells g = {} \<and>
         hinted_cells g4 = hinted_cells g \<union> set (hints_in new)))"
proof (intro conjI impI)
  assume h: "hint g = Inr (Some p, g')"
  from hint_some[OF h] show "p \<notin> hinted_cells g" "p \<in> grid_coordinates g"
    "g' = g\<lparr>hinted_cells := insert p (hinted_cells g)\<rparr>"
    by (auto simp: fully_safe_def)
  from hint_some(1)[OF h]
  show "\<exists>c. cell_at g (fst p) (snd p) = Inr c \<and> \<not> is_open c \<and> \<not> has_mine c \<and>
      surrounding_mines_count c = 0"
    by (auto simp: fully_safe_def split: sum.splits)
next
  assume a: "hint g = Inr (Some p, g') \<and> hinted_cells g' \<subseteq> hinted_cells g2 \<and>
      hint g2 = Inr (Some q, g3)"
  then have "p \<in> hinted_cells g'" using hint_some(3)[of g p g'] by auto
  with a have "p \<in> hinted_cells g2" by auto
  moreover from a hint_some(1)[of g2 q g3] have "q \<notin> hinted_cells g2"
    by (auto simp: fully_safe_def)
  ultimately show "q \<noteq> p" by auto
next
  assume "play g ins out = (st, g4, ins', out')"
  then show "\<exists>new. out' = out @ new \<and> distinct (hints_in new) \<and>
         set (hints_in new) \<inter> hinted_cells g = {} \<and>
         hinted_cells g4 = hinted_cells g \<union> set (hints_in new)"
    by (rule play_hints)
qed

theorem hint_returns_fresh_fully_safe_cell_witness:
  "hint far_mine_board = Inr (Some (0, 0), far_mine_board\<lparr>hinted_cells := {(0, 0)}\<rparr>) \<and>
   (0, 0) \<notin> hinted_cells far_mine_board \<and>
   hint (far_mine_board\<lparr>hinted_cells := {(0, 0)}\<rparr>) =
     Inr (Some (0, 1), far_mine_board\<lparr>hinted_cells := {(0, 0), (0, 1)}\<rparr>) \<and>
   play far_mine_board [Line_hint, Line_hint] [] =
     (Raised EOFError, far_mine_board\<lparr>hinted_cells := {(0, 0), (0, 1)}\<rparr>, [],
      [Hint_at (0, 0), Hint_at (0, 1)])"
proof -
  have h1: "hint far_mine_board = Inr (Some (0, 0), far_mine_board\<lparr>hinted_cells := {(0, 0)}\<rparr>)"
    by code_simp
  have h2: "hint (far_mine_board\<lparr>hinted_cells := {(0, 0)}\<rparr>) =
     Inr (Some (0, 1), far_mine_board\<lparr>hinted_cells := {(0, 0), (0, 1)}\<rparr>)"
    by code_simp
  have p: "play far_mine_board [Line_hint, Line_hint] [] =
     (Raised EOFError, far_mine_board\<lparr>hinted_cells := {(0, 0), (0, 1)}\<rparr>, [],
      [Hint_at (0, 0), Hint_at (0, 1)])"
    by code_simp
  from hint_returns_fresh_fully_safe_cell[of far_mine_board "(0, 0)"
      "far_mine_board\<lparr>hinted_cells := {(0, 0)}\<rparr>" "far_mine_board\<lparr>hinted_cells := {(0, 0)}\<rparr>"
      "(0, 1)" "far_mine_board\<lparr>hinted_cells := {(0, 0), (0, 1)}\<rparr>" "[Line_hint, Line_hint]" "[]"
      "Raised EOFError" "far_mine_board\<lparr>hinted_cells := {(0, 0), (0, 1)}\<rparr>" "[]"
      "[Hint_at (0, 0), Hint_at (0, 1)]"] h1
  have "(0, 0) \<notin> hinted_cells far_mine_board" by blast
  with h1 h2 p show ?thesis by simp
qed

text \<open>
  Claim C2.  On every board that the construction returns, and so on every board constructed
  with \<open>width \<ge> 2\<close>, \<open>height \<ge> 2\<close> and a difficulty of 1, 2 or 3, the
  \<open>surrounding_mines_count\<close> of every cell without a mine is the number of cells of the grid
  that are adjacent to it (orthogonally or diagonally, without wrap-around at the edges) and
  have a mine.  On the 3 by 3 board with mines at (0, 0) and (2, 2) the cell (1, 1) has the
  count 2.
\<close>

theorem construction_sets_exact_adjacency_counts:
  assumes "Grid_init rs w h d = Inr g"
    and "(row, col) \<in> grid_coordinates g"
    and "cell_at g row col = Inr c"
    and "\<not> has_mine c"
  shows "surrounding_mines_count c =
    int (card {q \<in> grid_coordinates g. adjacent (row, col) q \<and> mined g q})"
proof -
  from Grid_init_Inr[OF assms(1)] obtain k where
    k: "tier_mine_count d (w * h) = Some k" "0 \<le> k" "k \<le> max 0 h * max 0 w" by blast
  from Grid_init_built[OF k, of rs] assms(1) have
    c: "\<forall>q \<in> grid_coordinates g. cell_at g (fst q) (snd q) =
       Inr (built_cell (grid_coordinates g)
         (set (draw rs (generate_grid_coordinate_positions g) (nat k))) q)"
    by auto
  let ?M = "set (draw rs (generate_grid_coordinate_positions g) (nat k))"
  from c assms(2,3) have cb: "c = built_cell (grid_coordinates g) ?M (row, col)" by auto
  with assms(4) have nm: "(row, col) \<notin> ?M" by (simp add: built_cell_def)
  have "{q \<in> grid_coordinates g. adjacent (row, col) q \<and> mined g q}
      = {q \<in> grid_coordinates g. adjacent (row, col) q \<and> q \<in> ?M}"
    using c mined_built by blast
  with cb nm show ?thesis by (simp add: built_cell_def)
qed

theorem construction_sets_exact_adjacency_counts_witness:
  "Grid_init [0, 7] 3 3 2 = Inr diagonal_board \<and>
   mined diagonal_board (0, 0) \<and> mined diagonal_board (2, 2) \<and>
   cell_at diagonal_board 1 1 =
     Inr \<lparr>has_mine = False, surrounding_mines_count = 2, is_open = False\<rparr> \<and>
   int (card {q \<in> grid_coordinates diagonal_board. adjacent (1, 1) q \<and> mined diagonal_board q}) = 2"
proof -
  have b: "Grid_init [0, 7] 3 3 2 = Inr diagonal_board" by code_simp
  have m: "mined diagonal_board (0, 0)" "mined diagonal_board (2, 2)" by code_simp+
  have g: "(1, 1) \<in> grid_coordinates diagonal_board" by code_simp
  have c: "cell_at diagonal_board 1 1 =
     Inr \<lparr>has_mine = False, surrounding_mines_count = 2, is_open = False\<rparr>" by code_simp
  from construction_sets_exact_adjacency_counts[OF b g c] b m c show ?thesis by simp
qed

text \<open>
  Claim C3.  For \<open>width \<ge> 2\<close>, \<open>height \<ge> 2\<close> and a difficulty of 1, 2 or 3 the construction
  yields a board on which the number of cells with a mine is
  \<open>max (floor (width * height * rate)) minimum\<close>, with rate and minimum 0.10 and 1, 0.15 and 2,
  0.20 and 3 for the three tiers.  The mine positions are the sample drawn by
  \<open>_generate_mine_positions\<close>: that many pairwise distinct coordinates of the grid.
\<close>

theorem construction_places_documented_number_of_mines:
  assumes "2 \<le> w" and "2 \<le> h" and "d = 1 \<or> d = 2 \<or> d = 3"
  shows "\<exists>g mines. Grid_init rs w h d = Inr g \<and>
    mine_count g = Some (documented_mine_count w h d) \<and>
    generate_mine_positions rs g (generate_grid_coordinate_positions g) = Inr mines \<and>
    distinct mines \<and> int (length mines) = documented_mine_count w h d \<and>
    set mines \<subseteq> grid_coordinates g \<and>
    {p \<in> grid_coordinates g. mined g p} = set mines \<and>
    int (card {p \<in> grid_coordinates g. mined g p}) = documented_mine_count w h d"
proof -
  from tier_in_range[OF assms] obtain k where
    k: "tier_mine_count d (w * h) = Some k" "0 \<le> k" "k \<le> max 0 h * max 0 w" by blast
  from assms(1,2) have "0 \<le> w * h" by simp
  from tier_documented[OF this assms(3)] k(1) have kd: "k = documented_mine_count w h d"
    by (simp add: documented_mine_count_def)
  from Grid_init_built[OF k, of rs] obtain g where
    g: "Grid_init rs w h d = Inr g" "width g = w" "height g = h" "mine_count g = Some k"
    and c: "\<forall>q \<in> grid_coordinates g. cell_at g (fst q) (snd q) =
       Inr (built_cell (grid_coordinates g)
         (set (draw rs (generate_grid_coordinate_positions g) (nat k))) q)"
    by blast
  let ?coords = "generate_grid_coordinate_positions g"
  let ?mines = "draw rs ?coords (nat k)"
  from k(3) g(2,3) have kl: "k \<le> int (length ?coords)"
    by (simp add: length_positions nat_mult_distrib max_def split: if_splits)
  with k(2) g(4) have gen: "generate_mine_positions rs g ?coords = Inr ?mines"
    by (simp add: generate_mine_positions_def random_sample_def)
  have d: "distinct ?mines" by (rule distinct_draw[OF distinct_positions])
  from kl k(2) have l: "int (length ?mines) = k" by (simp add: length_draw)
  have s: "set ?mines \<subseteq> grid_coordinates g" using set_draw[of rs ?coords "nat k"]
    by (simp add: set_positions)
  have m: "{p \<in> grid_coordinates g. mined g p} = set ?mines"
    using c s mined_built by blast
  from d have "card (set ?mines) = length ?mines" by (rule distinct_card)
  with g gen d l s m kd show ?thesis by auto
qed

theorem construction_places_documented_number_of_mines_witness:
  "Grid_init [0, 7] 3 3 2 = Inr diagonal_board \<and>
   documented_mine_count 3 3 2 = 2 \<and>
   generate_mine_positions [0, 7] diagonal_board
     (generate_grid_coordinate_positions diagonal_board) = Inr [(0, 0), (2, 2)] \<and>
   int (card {p \<in> grid_coordinates diagonal_board. mined diagonal_board p}) = 2"
proof -
  have b: "Grid_init [0, 7] 3 3 2 = Inr diagonal_board" by code_simp
  have n: "documented_mine_count 3 3 2 = 2"
    by (simp add: documented_mine_count_def tier_rate_def tier_minimum_def)
  have s: "generate_mine_positions [0, 7] diagonal_board
     (generate_grid_coordinate_positions diagonal_board) = Inr [(0, 0), (2, 2)]" by code_simp
  from construction_places_documented_number_of_mines[of 3 3 2 "[0, 7]"] b n s
  show ?thesis by auto
qed



text \<open>
  Claim C5, as stated: construction fails for every width, height and difficulty that violate
  \<open>width \<ge> 2\<close>, \<open>height \<ge> 2\<close> or \<open>difficulty \<in> {1, 2, 3}\<close>.  \<open>Grid.__init__\<close> does not look
  at the width and the height: with width 1, height 5 and difficulty 1 it returns a board.
\<close>

theorem construction_accepts_width_one:
  "\<not> 2 \<le> (1 :: int) \<and> Grid_init [0] 1 5 1 = Inr narrow_board"
  by code_simp

text \<open>
  Claim C5, amended.  For \<open>width \<ge> 2\<close>, \<open>height \<ge> 2\<close> and a difficulty of 1, 2 or 3 the
  construction succeeds, whatever the random draws, and yields a rectangular board of that
  width and height.  The width and the height are checked by the driver and not by the
  constructor: the driver asks again, with a message, until both exceed 1, and so never
  constructs a board with a width or a height below 2.
\<close>

theorem valid_construction_succeeds_and_driver_checks_dimensions:
  "(2 \<le> w \<and> 2 \<le> h \<and> (d = 1 \<or> d = 2 \<or> d = 3) \<longrightarrow>
      (\<exists>g. Grid_init rs w h d = Inr g \<and> width g = w \<and> height g = h \<and> difficulty g = d \<and>
           rectangular g \<and> unmarked g \<and> hinted_cells g = {})) \<and>
   (\<not> (1 < a \<and> 1 < b) \<longrightarrow>
      read_dimensions (Line_int a # Line_int b # ins) out =
        read_dimensions ins (out @ [Grid_too_small])) \<and>
   (read_dimensions ins out = (Inr (w', h'), ins', out') \<longrightarrow> 2 \<le> w' \<and> 2 \<le> h')"
proof (intro conjI impI)
  assume v: "2 \<le> w \<and> 2 \<le> h \<and> (d = 1 \<or> d = 2 \<or> d = 3)"
  then obtain k where
    k: "tier_mine_count d (w * h) = Some k" "0 \<le> k" "k \<le> max 0 h * max 0 w"
    using tier_in_range[of w h d] by blast
  from Grid_init_built[OF k, of rs]
  show "\<exists>g. Grid_init rs w h d = Inr g \<and> width g = w \<and> height g = h \<and> difficulty g = d \<and>
           rectangular g \<and> unmarked g \<and> hinted_cells g = {}" by blast
next
  assume "\<not> (1 < a \<and> 1 < b)"
  then show "read_dimensions (Line_int a # Line_int b # ins) out =
        read_dimensions ins (out @ [Grid_too_small])" by auto
next
  assume "read_dimensions ins out = (Inr (w', h'), ins', out')"
  then have "1 < w' \<and> 1 < h'"
    by (induction ins out rule: read_dimensions.induct) (auto split: if_splits)
  then show "2 \<le> w'" "2 \<le> h'" by auto
qed

theorem valid_construction_succeeds_and_driver_checks_dimensions_witness:
  "Grid_init [9] 5 2 1 = Inr far_mine_board \<and> rectangular far_mine_board \<and>
   read_dimensions [Line_int 1, Line_int 5, Line_int 5, Line_int 2, Line_int 1] [] =
     (Inr (5, 2), [Line_int 1], [Grid_too_small])"
proof -
  have b: "Grid_init [9] 5 2 1 = Inr far_mine_board" by code_simp
  have r: "read_dimensions [Line_int 1, Line_int 5, Line_int 5, Line_int 2, Line_int 1] [] =
     (Inr (5, 2), [Line_int 1], [Grid_too_small])" by code_simp
  from valid_construction_succeeds_and_driver_checks_dimensions[of 5 2 1 "[9]" 1 5
      "[Line_int 5, Line_int 2, Line_int 1]" "[]" 5 2 "[Line_int 1]" "[Grid_too_small]"] b r
  show ?thesis by auto
qed

text \<open>
  Claim C6.  A guess is the column and the row typed after \<open>play\<close>.  While the game is in
  progress, a column or a row outside the grid is rejected with the message that the number
  is out of range, and a coordinate of an opened cell is rejected with the message that the
  cell is already opened.  A rejection changes nothing: the game goes on from the same board
  as if the rejected input had not been typed, with the message printed.  Every guess that
  \<open>_get_user_guess\<close> returns is inside the grid and names an unopened cell.
\<close>

theorem invalid_guess_is_rejected_without_effect:
  assumes "has_unopened_non_mines g = Inr True"
  shows "(\<not> (0 \<le> x \<and> x < width g) \<longrightarrow>
      play g (Line_play # Line_int x # rest) out =
        play g (Line_play # rest) (out @ [Out_of_range (width g - 1)])) \<and>
    (0 \<le> col \<and> col < width g \<and> \<not> (0 \<le> y \<and> y < height g) \<longrightarrow>
      play g (Line_play # Line_int col # Line_int y # rest) out =
        play g (Line_play # Line_int col # rest) (out @ [Out_of_range (height g - 1)])) \<and>
    (0 \<le> col \<and> col < width g \<and> 0 \<le> row \<and> row < height g \<and>
      is_cell_open g row col = Inr True \<longrightarrow>
      play g (Line_play # Line_int col # Line_int row # rest) out =
        play g (Line_play # rest) (out @ [Already_opened])) \<and>
    (get_user_guess g ins out = (Inr (r, c), ins', out') \<longrightarrow>
      0 \<le> r \<and> r < height g \<and> 0 \<le> c \<and> c < width g \<and> is_cell_open g r c = Inr False)"
proof (intro conjI impI)
  assume "\<not> (0 \<le> x \<and> x < width g)"
  from play_same_guess[OF assms guess_column_rejected[OF this]]
  show "play g (Line_play # Line_int x # rest) out =
        play g (Line_play # rest) (out @ [Out_of_range (width g - 1)])" .
next
  assume a: "0 \<le> col \<and> col < width g \<and> \<not> (0 \<le> y \<and> y < height g)"
  then have "get_user_guess g (Line_int col # Line_int y # rest) out =
      get_user_guess g (Line_int col # rest) (out @ [Out_of_range (height g - 1)])"
    by (intro guess_row_rejected) auto
  from play_same_guess[OF assms this]
  show "play g (Line_play # Line_int col # Line_int y # rest) out =
        play g (Line_play # Line_int col # rest) (out @ [Out_of_range (height g - 1)])" .
next
  assume a: "0 \<le> col \<and> col < width g \<and> 0 \<le> row \<and> row < height g \<and>
      is_cell_open g row col = Inr True"
  then have "get_user_guess g (Line_int col # Line_int row # rest) out =
      get_user_guess g rest (out @ [Already_opened])"
    by (intro guess_opened_rejected) auto
  from play_same_guess[OF assms this]
  show "play g (Line_play # Line_int col # Line_int row # rest) out =
        play g (Line_play # rest) (out @ [Already_opened])" .
next
  assume "get_user_guess g ins out = (Inr (r, c), ins', out')"
  from get_user_guess_accepts[OF this]
  show "0 \<le> r" "r < height g" "0 \<le> c" "c < width g" "is_cell_open g r c = Inr False"
    by (auto simp: is_valid_position_def)
qed

theorem invalid_guess_is_rejected_without_effect_witness:
  "has_unopened_non_mines strip_board = Inr True \<and>
   is_cell_open strip_board 0 2 = Inr True \<and>
   play strip_board [Line_play, Line_int 5, Line_int 2, Line_int 0] [] =
     (Raised EOFError, strip_board, [], [Out_of_range 4, Already_opened]) \<and>
   play strip_board [Line_play, Line_int 2, Line_int (- 1)] [] =
     (Raised EOFError, strip_board, [], [Out_of_range 1]) \<and>
   get_user_guess strip_board [Line_int 5, Line_int 2, Line_int 0, Line_int 1, Line_int 1] [] =
     (Inr (1, 1), [], [Out_of_range 4, Already_opened])"
proof -
  have l: "has_unopened_non_mines strip_board = Inr True" by code_simp
  have o: "is_cell_open strip_board 0 2 = Inr True" by code_simp
  have p1: "play strip_board [Line_play, Line_int 5, Line_int 2, Line_int 0] [] =
     (Raised EOFError, strip_board, [], [Out_of_range 4, Already_opened])" by code_simp
  have p2: "play strip_board [Line_play, Line_int 2, Line_int (- 1)] [] =
     (Raised EOFError, strip_board, [], [Out_of_range 1])" by code_simp
  have u: "get_user_guess strip_board [Line_int 5, Line_int 2, Line_int 0, Line_int 1, Line_int 1] [] =
     (Inr (1, 1), [], [Out_of_range 4, Already_opened])" by code_simp
  from invalid_guess_is_rejected_without_effect[OF l, of 5 "[Line_int 2, Line_int 0]" "[]"
      2 "- 1" 0 "[Line_int 5, Line_int 2, Line_int 0, Line_int 1, Line_int 1]" 1 1 "[]"
      "[Out_of_range 4, Already_opened]"] l o p1 p2 u
  show ?thesis by simp
qed

text \<open>
  Claim C7, as stated: after the game is lost or won every further reveal or hint fails with
  a game-over error.  The program has no such check.  After a game is lost, a request for a
  hint on its board returns a coordinate and records it, and \<open>play\<close> called again on that
  board accepts a guess and opens the cell.  After a game is won, a request for a hint
  returns normally, with the message that no safe cell is left.
\<close>

theorem hint_and_guess_are_served_after_loss:
  "play far_mine_board [Line_play, Line_int 4, Line_int 1] [] =
     (Lost, with_entry far_mine_board 1 4 Marker_X, [], [Guessed_mine, Game_over]) \<and>
   request_hint (with_entry far_mine_board 1 4 Marker_X) [] =
     (Inr (), (with_entry far_mine_board 1 4 Marker_X)\<lparr>hinted_cells := {(0, 0)}\<rparr>,
      [Hint_at (0, 0)]) \<and>
   play (with_entry far_mine_board 1 4 Marker_X) [Line_play, Line_int 0, Line_int 0] [] =
     (Raised EOFError,
      with_entry (with_entry far_mine_board 1 4 Marker_X) 0 0 (opened_cell 0), [], []) \<and>
   has_unopened_non_mines cleared_board = Inr False \<and>
   request_hint cleared_board [] = (Inr (), cleared_board, [No_safe_cells])"
  by code_simp

text \<open>
  Claim C7, amended.  A run of \<open>play\<close> ends as won exactly when the test at the head of the
  loop finds no unopened cell without a mine, as lost when the accepted guess names a cell
  with a mine, and otherwise goes on from the board with the guessed cell opened.  Won and
  lost are final for the run: \<open>play\<close> returns and reads nothing of the input that follows,
  which is left as it is.  A run that ends as won leaves no unopened cell without a mine; a
  run that ends as lost has printed the two messages of the loss last.
\<close>

theorem play_ends_when_won_or_lost:
  "(has_unopened_non_mines g = Inr False \<longrightarrow>
      play g ins out = (Won, g, ins, out @ [Congratulations])) \<and>
   (rectangular g \<and> has_unopened_non_mines g = Inr True \<and> (row, col) \<in> grid_coordinates g \<and>
      cell_at g row col = Inr c \<and> \<not> is_open c \<and> has_mine c \<longrightarrow>
      play g (Line_play # Line_int col # Line_int row # rest) out =
        (Lost, with_entry g row col Marker_X, rest, out @ [Guessed_mine, Game_over])) \<and>
   (rectangular g \<and> has_unopened_non_mines g = Inr True \<and> (row, col) \<in> grid_coordinates g \<and>
      cell_at g row col = Inr c \<and> \<not> is_open c \<and> \<not> has_mine c \<longrightarrow>
      play g (Line_play # Line_int col # Line_int row # rest) out =
        play (with_entry g row col (Cell (c\<lparr>is_open := True\<rparr>))) rest out) \<and>
   (play g ins out = (st, g', ins', out') \<and> (st = Won \<or> st = Lost) \<longrightarrow>
      play g (ins @ extra) out = (st, g', ins' @ extra, out') \<and>
      (st = Won \<longrightarrow> has_unopened_non_mines g' = Inr False) \<and>
      (st = Lost \<longrightarrow> (\<exists>before. out' = before @ [Guessed_mine, Game_over])))"
proof (intro conjI impI)
  assume "has_unopened_non_mines g = Inr False"
  then show "play g ins out = (Won, g, ins, out @ [Congratulations])" by (rule play_won)
next
  assume "rectangular g \<and> has_unopened_non_mines g = Inr True \<and> (row, col) \<in> grid_coordinates g \<and>
      cell_at g row col = Inr c \<and> \<not> is_open c \<and> has_mine c"
  then show "play g (Line_play # Line_int col # Line_int row # rest) out =
        (Lost, with_entry g row col Marker_X, rest, out @ [Guessed_mine, Game_over])"
    by (intro play_mine_guess) auto
next
  assume "rectangular g \<and> has_unopened_non_mines g = Inr True \<and> (row, col) \<in> grid_coordinates g \<and>
      cell_at g row col = Inr c \<and> \<not> is_open c \<and> \<not> has_mine c"
  then show "play g (Line_play # Line_int col # Line_int row # rest) out =
        play (with_entry g row col (Cell (c\<lparr>is_open := True\<rparr>))) rest out"
    by (intro play_safe_guess) auto
next
  assume a: "play g ins out = (st, g', ins', out') \<and> (st = Won \<or> st = Lost)"
  then have p: "play g ins out = (st, g', ins', out')" and t: "st = Won \<or> st = Lost" by auto
  from play_finished[OF p t, of extra]
  show "play g (ins @ extra) out = (st, g', ins' @ extra, out')"
    and "st = Won \<Longrightarrow> has_unopened_non_mines g' = Inr False"
    and "st = Lost \<Longrightarrow> \<exists>before. out' = before @ [Guessed_mine, Game_over]"
    by auto
qed

theorem play_ends_when_won_or_lost_witness:
  "has_unopened_non_mines cleared_board = Inr False \<and>
   play cleared_board [Line_hint] [] = (Won, cleared_board, [Line_hint], [Congratulations]) \<and>
   rectangular corner_board \<and> has_unopened_non_mines corner_board = Inr True \<and>
   cell_at corner_board 0 0 =
     Inr \<lparr>has_mine = True, surrounding_mines_count = 0, is_open = False\<rparr> \<and>
   play corner_board [Line_play, Line_int 0, Line_int 0, Line_hint] [] =
     (Lost, with_entry corner_board 0 0 Marker_X, [Line_hint], [Guessed_mine, Game_over]) \<and>
   cell_at corner_board 1 1 =
     Inr \<lparr>has_mine = False, surrounding_mines_count = 1, is_open = False\<rparr> \<and>
   play corner_board [Line_play, Line_int 1, Line_int 1] [] =
     play (with_entry corner_board 1 1 (opened_cell 1)) [] [] \<and>
   play corner_board
     [Line_play, Line_int 1, Line_int 0, Line_play, Line_int 0, Line_int 1,
      Line_play, Line_int 1, Line_int 1, Line_hint, Line_play] [] =
     (Won, cleared_board, [Line_hint, Line_play], [Congratulations])"
proof -
  have c: "has_unopened_non_mines cleared_board = Inr False" by code_simp
  have r: "rectangular corner_board" by code_simp
  have l: "has_unopened_non_mines corner_board = Inr True" by code_simp
  have g0: "(0, 0) \<in> grid_coordinates corner_board" and g1: "(1, 1) \<in> grid_coordinates corner_board"
    by code_simp+
  have m: "cell_at corner_board 0 0 =
     Inr \<lparr>has_mine = True, surrounding_mines_count = 0, is_open = False\<rparr>" by code_simp
  have s: "cell_at corner_board 1 1 =
     Inr \<lparr>has_mine = False, surrounding_mines_count = 1, is_open = False\<rparr>" by code_simp
  have o: "Cell (\<lparr>has_mine = False, surrounding_mines_count = 1, is_open = False\<rparr>\<lparr>is_open := True\<rparr>)
      = opened_cell 1" by (simp add: opened_cell_def)
  have w: "play corner_board
     [Line_play, Line_int 1, Line_int 0, Line_play, Line_int 0, Line_int 1,
      Line_play, Line_int 1, Line_int 1] [] = (Won, cleared_board, [], [Congratulations])"
    by code_simp
  from play_ends_when_won_or_lost[of cleared_board "[Line_hint]" "[]"] c
  have 1: "play cleared_board [Line_hint] [] = (Won, cleared_board, [Line_hint], [Congratulations])"
    by simp
  from play_ends_when_won_or_lost[of corner_board _ "[]" 0 0
      "\<lparr>has_mine = True, surrounding_mines_count = 0, is_open = False\<rparr>" "[Line_hint]"] r l g0 m
  have 2: "play corner_board [Line_play, Line_int 0, Line_int 0, Line_hint] [] =
     (Lost, with_entry corner_board 0 0 Marker_X, [Line_hint], [Guessed_mine, Game_over])"
    by simp
  from play_ends_when_won_or_lost[of corner_board _ "[]" 1 1
      "\<lparr>has_mine = False, surrounding_mines_count = 1, is_open = False\<rparr>" "[]"] r l g1 s o
  have 3: "play corner_board [Line_play, Line_int 1, Line_int 1] [] =
     play (with_entry corner_board 1 1 (opened_cell 1)) [] []"
    by simp
  from play_ends_when_won_or_lost[of corner_board
      "[Line_play, Line_int 1, Line_int 0, Line_play, Line_int 0, Line_int 1,
        Line_play, Line_int 1, Line_int 1]" "[]" 0 0 _ "[]" Won cleared_board "[]"
      "[Congratulations]" "[Line_hint, Line_play]"] w
  have 4: "play corner_board
     ([Line_play, Line_int 1, Line_int 0, Line_play, Line_int 0, Line_int 1,
      Line_play, Line_int 1, Line_int 1] @ [Line_hint, Line_play]) [] =
     (Won, cleared_board, [] @ [Line_hint, Line_play], [Congratulations])" by blast
  from c r l m s 1 2 3 4 show ?thesis by simp
qed

text \<open>
  Claim C8, as stated: a successful reveal sets the revealed flag of the one cell and leaves
  the mine flag and the count of every cell as they were.  A guess that names a cell with a
  mine does not set \<open>is_open\<close>: it replaces the \<open>Cell\<close> object by the string \<open>'X'\<close>, so the
  entry has no \<open>has_mine\<close> and no \<open>surrounding_mines_count\<close> afterwards.
\<close>

theorem guessed_mine_is_replaced_by_marker:
  "cell_at far_mine_board 1 4 =
     Inr \<lparr>has_mine = True, surrounding_mines_count = 0, is_open = False\<rparr> \<and>
   fst (snd (play far_mine_board [Line_play, Line_int 4, Line_int 1] [])) =
     with_entry far_mine_board 1 4 Marker_X \<and>
   cells (with_entry far_mine_board 1 4 Marker_X) ! 1 ! 4 = Marker_X \<and>
   cell_at (with_entry far_mine_board 1 4 Marker_X) 1 4 = Inl AttributeError"
  by code_simp

text \<open>
  Claim C8, amended.  On a rectangular board with the game in progress, an accepted guess
  changes the entry of the guessed coordinate and nothing else: no other entry of \<open>cells\<close>,
  and none of \<open>width\<close>, \<open>height\<close>, \<open>difficulty\<close>, \<open>mine_count\<close> and \<open>hinted_cells\<close>; no
  neighbour is opened.  When the cell has no mine, the entry is the same cell with \<open>is_open\<close>
  set, its \<open>has_mine\<close> and \<open>surrounding_mines_count\<close> unchanged, and the game goes on.  When
  the cell has a mine, the entry becomes the string \<open>'X'\<close> and the game is lost.
\<close>

theorem accepted_guess_changes_one_entry:
  assumes "rectangular g" and "has_unopened_non_mines g = Inr True"
    and "(row, col) \<in> grid_coordinates g" and "cell_at g row col = Inr c" and "\<not> is_open c"
  shows "(\<not> has_mine c \<longrightarrow>
      play g (Line_play # Line_int col # Line_int row # rest) out =
        play (with_entry g row col (Cell (c\<lparr>is_open := True\<rparr>))) rest out) \<and>
    (has_mine c \<longrightarrow>
      play g (Line_play # Line_int col # Line_int row # rest) out =
        (Lost, with_entry g row col Marker_X, rest, out @ [Guessed_mine, Game_over])) \<and>
    width (with_entry g row col s) = width g \<and> height (with_entry g row col s) = height g \<and>
    difficulty (with_entry g row col s) = difficulty g \<and>
    mine_count (with_entry g row col s) = mine_count g \<and>
    hinted_cells (with_entry g row col s) = hinted_cells g \<and>
    length (cells (with_entry g row col s)) = length (cells g) \<and>
    cells (with_entry g row col s) ! nat row ! nat col = s \<and>
    ((r', c') \<in> grid_coordinates g \<and> (r', c') \<noteq> (row, col) \<longrightarrow>
      cells (with_entry g row col s) ! nat r' ! nat c' = cells g ! nat r' ! nat c')"
proof -
  have "\<not> has_mine c \<longrightarrow>
      play g (Line_play # Line_int col # Line_int row # rest) out =
        play (with_entry g row col (Cell (c\<lparr>is_open := True\<rparr>))) rest out"
    using play_safe_guess[OF assms] by blast
  moreover have "has_mine c \<longrightarrow>
      play g (Line_play # Line_int col # Line_int row # rest) out =
        (Lost, with_entry g row col Marker_X, rest, out @ [Guessed_mine, Game_over])"
    using play_mine_guess[OF assms] by blast
  moreover have "length (cells (with_entry g row col s)) = length (cells g)"
    by (simp add: with_entry_def)
  moreover have "cells (with_entry g row col s) ! nat row ! nat col = s"
    using entry_with_entry[OF assms(1,3,3), of s] by simp
  moreover have "(r', c') \<in> grid_coordinates g \<and> (r', c') \<noteq> (row, col) \<longrightarrow>
      cells (with_entry g row col s) ! nat r' ! nat c' = cells g ! nat r' ! nat c'"
    using entry_with_entry[OF assms(1,3), of r' c' s] by auto
  ultimately show ?thesis by simp
qed

theorem accepted_guess_changes_one_entry_witness:
  "rectangular far_mine_board \<and> has_unopened_non_mines far_mine_board = Inr True \<and>
   cell_at far_mine_board 0 3 =
     Inr \<lparr>has_mine = False, surrounding_mines_count = 1, is_open = False\<rparr> \<and>
   play far_mine_board [Line_play, Line_int 3, Line_int 0] [] =
     play (with_entry far_mine_board 0 3 (opened_cell 1)) [] [] \<and>
   cells (with_entry far_mine_board 0 3 (opened_cell 1)) ! 0 ! 3 = opened_cell 1 \<and>
   cells (with_entry far_mine_board 0 3 (opened_cell 1)) ! 0 ! 4 = cells far_mine_board ! 0 ! 4 \<and>
   hinted_cells (with_entry far_mine_board 0 3 (opened_cell 1)) = hinted_cells far_mine_board \<and>
   cell_at far_mine_board 1 4 =
     Inr \<lparr>has_mine = True, surrounding_mines_count = 0, is_open = False\<rparr> \<and>
   play far_mine_board [Line_play, Line_int 4, Line_int 1] [] =
     (Lost, with_entry far_mine_board 1 4 Marker_X, [], [Guessed_mine, Game_over])"
proof -
  have r: "rectangular far_mine_board" by code_simp
  have l: "has_unopened_non_mines far_mine_board = Inr True" by code_simp
  have g: "(0, 3) \<in> grid_coordinates far_mine_board" "(0, 4) \<in> grid_coordinates far_mine_board"
    "(1, 4) \<in> grid_coordinates far_mine_board" by code_simp+
  have c: "cell_at far_mine_board 0 3 =
     Inr \<lparr>has_mine = False, surrounding_mines_count = 1, is_open = False\<rparr>" by code_simp
  have m: "cell_at far_mine_board 1 4 =
     Inr \<lparr>has_mine = True, surrounding_mines_count = 0, is_open = False\<rparr>" by code_simp
  have o: "Cell (\<lparr>has_mine = False, surrounding_mines_count = 1, is_open = False\<rparr>\<lparr>is_open := True\<rparr>)
      = opened_cell 1" by (simp add: opened_cell_def)
  from accepted_guess_changes_one_entry[OF r l g(1) c, of "[]" "[]" "opened_cell 1" 0 4] g(2) o
  have 1: "play far_mine_board [Line_play, Line_int 3, Line_int 0] [] =
      play (with_entry far_mine_board 0 3 (opened_cell 1)) [] []"
    "cells (with_entry far_mine_board 0 3 (opened_cell 1)) ! 0 ! 3 = opened_cell 1"
    "cells (with_entry far_mine_board 0 3 (opened_cell 1)) ! 0 ! 4 = cells far_mine_board ! 0 ! 4"
    "hinted_cells (with_entry far_mine_board 0 3 (opened_cell 1)) = hinted_cells far_mine_board"
    by simp_all
  from accepted_guess_changes_one_entry[OF r l g(3) m, of "[]" "[]" Marker_X 0 0]
  have 2: "play far_mine_board [Line_play, Line_int 4, Line_int 1] [] =
     (Lost, with_entry far_mine_board 1 4 Marker_X, [], [Guessed_mine, Game_over])" by simp
  from r l c m 1 2 show ?thesis by simp
qed

text \<open>
  Claim C9.  \<open>hint\<close> terminates.  The search is a total function: each activation adds its
  own coordinate to the visited set, an activation is started only for a coordinate that is
  not yet visited, and the visited set stays inside the grid, so the set grows strictly and
  is bounded by the \<open>width * height\<close> coordinates.  No search of \<open>hint\<close> ever has more than
  \<open>width * height\<close> activations nested: run with that bound on the depth, \<open>hint\<close> returns
  what it returns without a bound.  The scan of \<open>hint\<close> tries at most \<open>width * height\<close>
  starting coordinates.
\<close>

theorem hint_search_is_bounded_by_grid_size:
  "hint_within (nat (width g * height g)) g = Some (hint g) \<and>
   length (scan_order g) \<le> nat (width g * height g) \<and>
   card (grid_coordinates g) \<le> nat (width g * height g) \<and>
   ((row, col) \<in> grid_coordinates g \<longrightarrow>
      search_within (nat (width g * height g)) g row col {} =
        Some (recursive_backtrack_search g row col {})) \<and>
   (recursive_backtrack_search g row col visited = Inr (res, visited') \<longrightarrow>
      insert (row, col) visited \<subseteq> visited' \<and>
      visited' \<subseteq> insert (row, col) visited \<union> grid_coordinates g) \<and>
   (search_neighbours g (n # ns) visited = Inr (res, visited') \<and> n \<notin> visited \<longrightarrow>
      (\<exists>r1 v1. recursive_backtrack_search g (fst n) (snd n) visited = Inr (r1, v1) \<and>
         visited \<subset> v1 \<and> v1 \<subseteq> visited'))"
proof -
  have a: "(row, col) \<in> grid_coordinates g \<longrightarrow>
      search_within (nat (width g * height g)) g row col {} =
        Some (recursive_backtrack_search g row col {})"
  proof
    assume pin: "(row, col) \<in> grid_coordinates g"
    have "card (grid_coordinates g - {}) \<le> nat (width g * height g)"
      using card_grid_le[of g] by simp
    from within_budget(1)[OF pin _ this]
    show "search_within (nat (width g * height g)) g row col {} =
        Some (recursive_backtrack_search g row col {})" by simp
  qed
  have b: "recursive_backtrack_search g row col visited = Inr (res, visited') \<longrightarrow>
      insert (row, col) visited \<subseteq> visited' \<and>
      visited' \<subseteq> insert (row, col) visited \<union> grid_coordinates g"
    using visited_grows(1)[of g row col visited res visited'] by blast
  have c: "search_neighbours g (n # ns) visited = Inr (res, visited') \<and> n \<notin> visited \<longrightarrow>
      (\<exists>r1 v1. recursive_backtrack_search g (fst n) (snd n) visited = Inr (r1, v1) \<and>
         visited \<subset> v1 \<and> v1 \<subseteq> visited')"
  proof
    assume h: "search_neighbours g (n # ns) visited = Inr (res, visited') \<and> n \<notin> visited"
    then have nv: "n \<notin> visited"
      and eq: "search_neighbours g (n # ns) visited = Inr (res, visited')" by auto
    from eq nv obtain r1 v1 where
      call: "recursive_backtrack_search g (fst n) (snd n) visited = Inr (r1, v1)"
      by (auto simp del: recursive_backtrack_search.simps split: sum.splits)
    from visited_grows(1)[OF call] nv have s: "visited \<subset> v1" by auto
    have "v1 \<subseteq> visited'"
    proof (cases r1)
      case None
      with eq nv call have "search_neighbours g ns v1 = Inr (res, visited')"
        by (simp del: recursive_backtrack_search.simps)
      from visited_grows(2)[OF this] show ?thesis by simp
    next
      case (Some q)
      with eq nv call show ?thesis by (simp del: recursive_backtrack_search.simps)
    qed
    with call s show "\<exists>r1 v1. recursive_backtrack_search g (fst n) (snd n) visited = Inr (r1, v1) \<and>
         visited \<subset> v1 \<and> v1 \<subseteq> visited'" by blast
  qed
  from a b c show ?thesis
    by (simp only: hint_within_grid_size length_scan_le card_grid_le simp_thms)
qed

theorem hint_search_is_bounded_by_grid_size_witness:
  "(0, 1) \<in> grid_coordinates corner_board \<and>
   recursive_backtrack_search corner_board 0 1 {} = Inr (None, {(0, 0), (0, 1), (1, 0), (1, 1)}) \<and>
   search_within 4 corner_board 0 1 {} = Some (recursive_backtrack_search corner_board 0 1 {}) \<and>
   search_within 3 corner_board 0 1 {} = None \<and>
   search_neighbours corner_board [(0, 0)] {} = Inr (None, {(0, 0), (0, 1), (1, 0), (1, 1)}) \<and>
   hint_within 4 corner_board = Some (hint corner_board) \<and>
   hint_within 3 corner_board = None \<and>
   length (scan_order corner_board) = 4"
proof -
  have g: "(0, 1) \<in> grid_coordinates corner_board" by code_simp
  have s: "recursive_backtrack_search corner_board 0 1 {} =
      Inr (None, {(0, 0), (0, 1), (1, 0), (1, 1)})" by code_simp
  have t: "search_within 3 corner_board 0 1 {} = None" by code_simp
  have v: "search_neighbours corner_board [(0, 0)] {} =
      Inr (None, {(0, 0), (0, 1), (1, 0), (1, 1)})" by code_simp
  have u: "hint_within 3 corner_board = None" by code_simp
  have l: "length (scan_order corner_board) = 4" by code_simp
  have n: "nat (width corner_board * height corner_board) = 4" by code_simp
  from hint_search_is_bounded_by_grid_size[of corner_board 0 1 "{}" None
      "{(0, 0), (0, 1), (1, 0), (1, 1)}" "(0, 0)" "[]"] g s t v u l n
  show ?thesis by simp
qed



end
